theory Spec2Isabelle
  imports Main
begin

section \<open>JavaScript values\<close>

text \<open>
  The dashboard receives its messages from \<^verbatim>\<open>JSON.parse\<close> and reads their fields
  without checking them, so the model needs the values JavaScript can hold there.
  \<open>JUndefined\<close> is the value of a missing property. Numbers are integers (the counters
  of the statistics); fractional numbers are not modelled.
\<close>

datatype json =
    JUndefined
  | JNull
  | JBool bool
  | JNum int
  | JStr string
  | JArr "json list"
  | JObj "(string \<times> json) list"

datatype error = TypeError | InvalidStateError | SyntaxError

text \<open>Truthiness, as \<^verbatim>\<open>if (v)\<close>, \<^verbatim>\<open>v || d\<close> and \<^verbatim>\<open>v ? a : b\<close> test it.\<close>

fun truthy :: "json \<Rightarrow> bool" where
  "truthy JUndefined = False"
| "truthy JNull = False"
| "truthy (JBool b) = b"
| "truthy (JNum n) = (n \<noteq> 0)"
| "truthy (JStr s) = (s \<noteq> [])"
| "truthy (JArr xs) = True"
| "truthy (JObj kvs) = True"

text \<open>\<^verbatim>\<open>a || d\<close>: the left operand when it is truthy, the right one otherwise.\<close>

definition js_or :: "json \<Rightarrow> json \<Rightarrow> json" where
  "js_or a d = (if truthy a then a else d)"

text \<open>
  \<^verbatim>\<open>v.k\<close> for a value that is neither \<^verbatim>\<open>null\<close> nor \<^verbatim>\<open>undefined\<close>: the field of an
  object, \<^verbatim>\<open>undefined\<close> when the object lacks it, and \<^verbatim>\<open>undefined\<close> on numbers,
  strings, booleans and arrays (none of the property names the dashboard reads is a
  built-in of those).
\<close>

fun get_field :: "json \<Rightarrow> string \<Rightarrow> json" where
  "get_field (JObj kvs) k = (case map_of kvs k of None \<Rightarrow> JUndefined | Some v \<Rightarrow> v)"
| "get_field v k = JUndefined"

text \<open>\<^verbatim>\<open>v.k\<close> in general: reading a property of \<^verbatim>\<open>null\<close> or \<^verbatim>\<open>undefined\<close> throws.\<close>

fun get_prop :: "json \<Rightarrow> string \<Rightarrow> error + json" where
  "get_prop JUndefined k = Inl TypeError"
| "get_prop JNull k = Inl TypeError"
| "get_prop v k = Inr (get_field v k)"

text \<open>\<^verbatim>\<open>v?.k\<close>: \<^verbatim>\<open>undefined\<close> instead of the exception.\<close>

fun opt_prop :: "json \<Rightarrow> string \<Rightarrow> json" where
  "opt_prop JUndefined k = JUndefined"
| "opt_prop JNull k = JUndefined"
| "opt_prop v k = get_field v k"

text \<open>\<^verbatim>\<open>String.prototype.toUpperCase\<close>, on the ASCII letters.\<close>

definition toUpperCase :: "string \<Rightarrow> string" where
  "toUpperCase s =
     map (\<lambda>c. case map_of (zip ''abcdefghijklmnopqrstuvwxyz'' ''ABCDEFGHIJKLMNOPQRSTUVWXYZ'') c of
                 Some u \<Rightarrow> u
               | None \<Rightarrow> c) s"

section \<open>The agent dashboard: state\<close>

text \<open>
  File \<^verbatim>\<open>client_agent_fastapi/static/dashboard.js\<close>, class \<^verbatim>\<open>AgentDashboard\<close>.
  Its state is the object's own fields, the five page elements it writes to, and the
  browser facilities it uses: the WebSocket, the timers, the console and the clock.
\<close>

text \<open>The \<^verbatim>\<open>readyState\<close> of the WebSocket held in \<^verbatim>\<open>this.ws\<close>.\<close>

datatype readyState = CONNECTING | OPEN | CLOSED

text \<open>
  A timer callback: the two closures the class passes to \<^verbatim>\<open>setTimeout\<close>.
  \<open>RemoveAlert n\<close> closes over the alert node \<open>n\<close> it was created for.
\<close>

datatype callback = Reconnect | RemoveAlert nat

text \<open>A pending timeout: the time at which it is due, and its callback.\<close>

type_synonym timer = "nat \<times> callback"

text \<open>
  Console output: \<^verbatim>\<open>console.log\<close> and \<^verbatim>\<open>console.error\<close> with their text and the
  values printed with it, and the exceptions no handler catches (the browser reports
  them there). The emoji that start two of the source's texts are left out.
\<close>

datatype console_entry =
    Log string "json list"
  | Error string "json list"
  | Uncaught error

text \<open>
  A piece of a template literal: literal text, an interpolated value, an array joined
  with a separator (\<^verbatim>\<open>xs.join(', ')\<close>), a number as a percentage with one decimal
  (\<^verbatim>\<open>(v * 100).toFixed(1)\<close>), or \<^verbatim>\<open>JSON.stringify(v, null, 2)\<close>. The conversions to
  text themselves are the browser's and are not spelled out.
\<close>

datatype part = Lit string | Val json | Joined "json list" string | Percent json | Stringify json

type_synonym html = "part list"

text \<open>
  An alert node: its identity (nodes are compared by identity when removed), the
  \<^verbatim>\<open>className\<close> suffix, that is the alert's kind, the title, the formatted content and the time
  of creation.
\<close>

record alert =
  alert_node :: nat
  alert_kind :: string
  alert_title :: string
  alert_content :: html
  alert_time :: nat

text \<open>A log entry node of the event log.\<close>

record log_entry =
  entry_level :: string
  entry_eventType :: string
  entry_message :: html
  entry_time :: nat

text \<open>
  The state. A page element is \<open>None\<close> when \<^verbatim>\<open>document.getElementById\<close> finds none.
  \<open>threat_stats\<close>, \<open>agent_status\<close> and \<open>system_info\<close> hold the \<^verbatim>\<open>innerHTML\<close> last
  written, as the list of the values interpolated into the template, each with its label.
\<close>

record dashboard =
  ws :: "readyState option"
  isConnected :: bool
  reconnectAttempts :: nat
  maxReconnectAttempts :: nat
  agent_status :: "(string \<times> json) list option"
  system_info :: "(string \<times> json) list option"
  threat_stats :: "(string \<times> json) list option"
  alerts_container :: "alert list option"
  event_log :: "log_entry list option"
  clock :: nat
  timers :: "timer list"
  next_node :: nat
  sent :: "json list"
  console :: "console_entry list"

text \<open>
  The outcome of a method: the exception it threw, if any, and the state it left.
  An exception does not undo the writes made before it.
\<close>

type_synonym outcome = "error option \<times> dashboard"

text \<open>Sequencing two statements: the second runs only when the first did not throw.\<close>

fun and_then :: "outcome \<Rightarrow> (dashboard \<Rightarrow> outcome) \<Rightarrow> outcome" where
  "and_then (None, s) f = f s"
| "and_then (Some e, s) f = (Some e, s)"

section \<open>Status and statistics display\<close>

text \<open>\<^verbatim>\<open>updateStatus(status)\<close>, lines 164-174.\<close>

definition updateStatus :: "string \<Rightarrow> dashboard \<Rightarrow> dashboard" where
  "updateStatus status s =
     (case agent_status s of
        None \<Rightarrow> s
      | Some old \<Rightarrow>
          s\<lparr>agent_status := Some
              [(''class'', JStr (''status-'' @ status)),
               (''Agent Status:'', JStr (toUpperCase status)),
               (''WebSocket:'', JStr (if isConnected s then ''Connected'' else ''Disconnected''))]\<rparr>)"

text \<open>
  The template of \<^verbatim>\<open>updateThreatStats\<close>, lines 197-203: five paragraphs, each the
  field of \<^verbatim>\<open>stats\<close> or 0 in its place.
\<close>

definition stats_fields :: "(string \<times> string) list" where
  "stats_fields =
     [(''Total Detections:'', ''total_detections''),
      (''Supervised ML:'', ''layer1_supervised''),
      (''Anomaly Detection:'', ''layer2_anomaly''),
      (''Rule-based:'', ''layer3_rules''),
      (''Slow Ransomware:'', ''layer4_slow'')]"

definition render_stats :: "json \<Rightarrow> (string \<times> json) list" where
  "render_stats stats =
     map (\<lambda>(label, key). (label, js_or (get_field stats key) (JNum 0))) stats_fields"

text \<open>\<^verbatim>\<open>updateThreatStats(stats)\<close>, lines 194-205.\<close>

definition updateThreatStats :: "json \<Rightarrow> dashboard \<Rightarrow> dashboard" where
  "updateThreatStats stats s =
     (if threat_stats s \<noteq> None \<and> truthy stats
      then s\<lparr>threat_stats := Some (render_stats stats)\<rparr>
      else s)"

text \<open>
  The merge the specification describes, following its words: the current snapshot is
  updated field by field, a field of the partial snapshot wins, a field absent from it
  keeps its current value.
\<close>

definition merge_spec :: "(string \<times> json) list \<Rightarrow> json \<Rightarrow> (string \<times> json) list" where
  "merge_spec current partial =
     map (\<lambda>(label, key).
            (label, case get_field partial key of
                      JUndefined \<Rightarrow> (case map_of current label of None \<Rightarrow> JNum 0 | Some v \<Rightarrow> v)
                    | v \<Rightarrow> v))
         stats_fields"

section \<open>Alerts\<close>

text \<open>\<^verbatim>\<open>getAlertTitle(type)\<close>, lines 145-153 (the emoji of the titles are left out).\<close>

definition getAlertTitle :: "string \<Rightarrow> string" where
  "getAlertTitle kind =
     (case map_of [(''threat'', ''THREAT DETECTED''),
                   (''emergency'', ''EMERGENCY RESPONSE''),
                   (''high'', ''HIGH ALERT''),
                   (''info'', ''ENHANCED MONITORING'')] kind of
        Some title \<Rightarrow> title
      | None \<Rightarrow> ''ALERT'')"

text \<open>
  \<^verbatim>\<open>formatAlertContent(data)\<close>, lines 155-162. It throws when \<open>data\<close> is
  \<^verbatim>\<open>null\<close> or \<^verbatim>\<open>undefined\<close>, when a truthy \<^verbatim>\<open>threat_level\<close> is not a string (no
  \<^verbatim>\<open>toUpperCase\<close>) and when a truthy \<^verbatim>\<open>actions\<close> is not an array (no \<^verbatim>\<open>join\<close>).
\<close>

definition formatAlertContent :: "json \<Rightarrow> error + html" where
  "formatAlertContent data =
     (case get_prop data ''threat_level'' of
        Inl e \<Rightarrow> Inl e
      | Inr level \<Rightarrow>
          if truthy level then
            (case level of
               JStr l \<Rightarrow> Inr [Lit ''Level: '', Val (JStr (toUpperCase l)),
                               Lit '' | Confidence: '', Percent (get_field data ''confidence''),
                               Lit ''%'']
             | _ \<Rightarrow> Inl TypeError)
          else if truthy (get_field data ''actions'') then
            (case get_field data ''actions'' of
               JArr xs \<Rightarrow> Inr [Lit ''Actions taken: '', Joined xs '', '']
             | _ \<Rightarrow> Inl TypeError)
          else Inr [Stringify data])"

text \<open>
  \<^verbatim>\<open>showAlert(type, data)\<close>, lines 124-143. The node is created first, its content
  is formatted next (which may throw), then it is inserted before the first child of
  the container (which throws when the page has no container), and last the timeout
  of 10000 ms is set. The handle \<^verbatim>\<open>setTimeout\<close> returns is dropped.
\<close>

definition showAlert :: "string \<Rightarrow> json \<Rightarrow> dashboard \<Rightarrow> outcome" where
  "showAlert kind data s =
     (let n = next_node s; s1 = s\<lparr>next_node := Suc n\<rparr> in
      case formatAlertContent data of
        Inl e \<Rightarrow> (Some e, s1)
      | Inr content \<Rightarrow>
          (case alerts_container s1 of
             None \<Rightarrow> (Some TypeError, s1)
           | Some alerts \<Rightarrow>
               (None,
                s1\<lparr>alerts_container :=
                      Some (\<lparr>alert_node = n, alert_kind = kind,
                             alert_title = getAlertTitle kind, alert_content = content,
                             alert_time = clock s\<rparr> # alerts),
                    timers := timers s1 @ [(clock s + 10000, RemoveAlert n)]\<rparr>)))"

text \<open>
  The callback of that timeout, lines 138-142: the node is removed from its parent, if
  it still has one.
\<close>

definition removeAlert :: "nat \<Rightarrow> dashboard \<Rightarrow> dashboard" where
  "removeAlert n s =
     s\<lparr>alerts_container := map_option (filter (\<lambda>a. alert_node a \<noteq> n)) (alerts_container s)\<rparr>"

section \<open>Event log\<close>

text \<open>The loop of lines 221-223: the last child is removed while there are more than 50.\<close>

function trim_log :: "'a list \<Rightarrow> 'a list" where
  "trim_log xs = (if length xs > 50 then trim_log (butlast xs) else xs)"
  by pat_completeness auto
termination
  by (relation "measure length") auto

declare trim_log.simps [simp del]

text \<open>
  \<^verbatim>\<open>addToEventLog(eventType, message, level)\<close>, lines 207-224. Inserting into a
  missing \<^verbatim>\<open>event-log\<close> element throws.
\<close>

definition addToEventLog :: "string \<Rightarrow> html \<Rightarrow> string \<Rightarrow> dashboard \<Rightarrow> outcome" where
  "addToEventLog eventType message level s =
     (case event_log s of
        None \<Rightarrow> (Some TypeError, s)
      | Some entries \<Rightarrow>
          (None,
           s\<lparr>event_log :=
               Some (trim_log (\<lparr>entry_level = level, entry_eventType = eventType,
                                entry_message = message, entry_time = clock s\<rparr> # entries))\<rparr>))"

section \<open>Message handlers\<close>

text \<open>\<^verbatim>\<open>x.join(sep)\<close> inside a template: only an array has \<^verbatim>\<open>join\<close>.\<close>

definition js_join :: "json \<Rightarrow> string \<Rightarrow> error + part" where
  "js_join v sep = (case v of JArr xs \<Rightarrow> Inr (Joined xs sep) | _ \<Rightarrow> Inl TypeError)"

text \<open>\<^verbatim>\<open>handleThreatDetected(message)\<close>, lines 95-99.\<close>

definition handleThreatDetected :: "json \<Rightarrow> dashboard \<Rightarrow> outcome" where
  "handleThreatDetected message s =
     and_then (showAlert ''threat'' (get_field message ''data'') s) (\<lambda>s1.
     and_then (None, updateThreatStats (get_field message ''detection_stats'') s1) (\<lambda>s2.
     addToEventLog ''THREAT_DETECTED'' [Val (get_field message ''data'')] ''critical'' s2))"

text \<open>\<^verbatim>\<open>handleEmergencyResponse(message)\<close>, lines 101-104.\<close>

definition handleEmergencyResponse :: "json \<Rightarrow> dashboard \<Rightarrow> outcome" where
  "handleEmergencyResponse message s =
     and_then (showAlert ''emergency'' message s) (\<lambda>s1.
     case js_join (get_field message ''actions'') '', '' of
       Inl e \<Rightarrow> (Some e, s1)
     | Inr joined \<Rightarrow> addToEventLog ''EMERGENCY_RESPONSE'' [Lit ''Actions: '', joined] ''critical'' s1)"

text \<open>\<^verbatim>\<open>handleHighAlertResponse(message)\<close>, lines 106-109.\<close>

definition handleHighAlertResponse :: "json \<Rightarrow> dashboard \<Rightarrow> outcome" where
  "handleHighAlertResponse message s =
     and_then (showAlert ''high'' message s) (\<lambda>s1.
     case js_join (get_field message ''actions'') '', '' of
       Inl e \<Rightarrow> (Some e, s1)
     | Inr joined \<Rightarrow> addToEventLog ''HIGH_ALERT'' [Lit ''Actions: '', joined] ''warning'' s1)"

text \<open>\<^verbatim>\<open>handleEnhancedMonitoring(message)\<close>, lines 111-114.\<close>

definition handleEnhancedMonitoring :: "json \<Rightarrow> dashboard \<Rightarrow> outcome" where
  "handleEnhancedMonitoring message s =
     and_then (showAlert ''info'' message s) (\<lambda>s1.
     addToEventLog ''ENHANCED_MONITORING'' [Lit ''Enhanced monitoring activated''] ''info'' s1)"

text \<open>\<^verbatim>\<open>updateSystemInfo(statusData)\<close>, lines 182-192.\<close>

definition updateSystemInfo :: "json \<Rightarrow> dashboard \<Rightarrow> dashboard" where
  "updateSystemInfo statusData s =
     (if system_info s \<noteq> None \<and> truthy (get_field statusData ''agent_status'')
      then s\<lparr>system_info := Some
              [(''Status:'', get_field statusData ''agent_status''),
               (''Monitoring:'',
                  JStr (if truthy (get_field statusData ''monitoring_active'')
                        then ''Active'' else ''Inactive'')),
               (''Files Monitored:'',
                  js_or (opt_prop (get_field statusData ''stats'') ''files_monitored'') (JNum 0)),
               (''Last Detection:'',
                  js_or (opt_prop (get_field statusData ''stats'') ''last_detection'')
                        (JStr ''Never''))]\<rparr>
      else s)"

text \<open>
  \<^verbatim>\<open>updateDashboard(statusData)\<close>, lines 176-180. The class defines no
  \<^verbatim>\<open>updateCharts\<close>, so the third call throws, after the two displays were updated.
\<close>

definition updateDashboard :: "json \<Rightarrow> dashboard \<Rightarrow> outcome" where
  "updateDashboard statusData s =
     (Some TypeError,
      updateThreatStats (get_field statusData ''detection_stats'') (updateSystemInfo statusData s))"

text \<open>\<^verbatim>\<open>handleStatusUpdate(message)\<close>, lines 116-118.\<close>

definition handleStatusUpdate :: "json \<Rightarrow> dashboard \<Rightarrow> outcome" where
  "handleStatusUpdate message s = updateDashboard message s"

text \<open>\<^verbatim>\<open>handleCommandExecuted(message)\<close>, lines 120-122.\<close>

definition handleCommandExecuted :: "json \<Rightarrow> dashboard \<Rightarrow> outcome" where
  "handleCommandExecuted message s =
     (case js_join (get_field message ''commands'') '', '' of
        Inl e \<Rightarrow> (Some e, s)
      | Inr joined \<Rightarrow> addToEventLog ''COMMAND_EXECUTED'' [Lit ''Executed: '', joined] ''info'' s)"

text \<open>
  \<^verbatim>\<open>handleMessage(message)\<close>, lines 68-93. Reading \<^verbatim>\<open>message.type\<close> throws when the
  frame was the JSON text \<^verbatim>\<open>null\<close>; the handlers run only after it succeeded, so they
  read the fields of \<open>message\<close> with \<open>get_field\<close>.
\<close>

definition handleMessage :: "json \<Rightarrow> dashboard \<Rightarrow> outcome" where
  "handleMessage message s =
     (case get_prop message ''type'' of
        Inl e \<Rightarrow> (Some e, s)
      | Inr messageType \<Rightarrow>
          if messageType = JStr ''THREAT_DETECTED'' then handleThreatDetected message s
          else if messageType = JStr ''EMERGENCY_RESPONSE'' then handleEmergencyResponse message s
          else if messageType = JStr ''HIGH_ALERT_RESPONSE'' then handleHighAlertResponse message s
          else if messageType = JStr ''ENHANCED_MONITORING'' then handleEnhancedMonitoring message s
          else if messageType = JStr ''STATUS_UPDATE'' then handleStatusUpdate message s
          else if messageType = JStr ''COMMAND_EXECUTED'' then handleCommandExecuted message s
          else (None, s\<lparr>console := console s @ [Log ''Unknown message type:'' [messageType]]\<rparr>))"

section \<open>Commands\<close>

text \<open>
  \<^verbatim>\<open>WebSocket.send\<close>: it transmits on an open socket, throws on a connecting one and
  drops the data on a closed one.
\<close>

definition ws_send :: "json \<Rightarrow> dashboard \<Rightarrow> outcome" where
  "ws_send frame s =
     (case ws s of
        None \<Rightarrow> (Some TypeError, s)
      | Some CONNECTING \<Rightarrow> (Some InvalidStateError, s)
      | Some OPEN \<Rightarrow> (None, s\<lparr>sent := sent s @ [frame]\<rparr>)
      | Some CLOSED \<Rightarrow> (None, s))"

text \<open>
  \<^verbatim>\<open>sendMessage(message)\<close>, lines 309-315. The frame is \<^verbatim>\<open>JSON.stringify(message)\<close>;
  the model keeps the value itself.
\<close>

definition sendMessage :: "json \<Rightarrow> dashboard \<Rightarrow> outcome" where
  "sendMessage message s =
     (if ws s \<noteq> None \<and> isConnected s then ws_send message s
      else (None, s\<lparr>console := console s @ [Error ''WebSocket not connected'' []]\<rparr>))"

text \<open>
  What the caller of \<^verbatim>\<open>sendMessage\<close> gets: the exception, when one is thrown, and
  otherwise \<^verbatim>\<open>undefined\<close>, since neither branch of the method returns a value.
\<close>

definition sendMessage_returns :: "json \<Rightarrow> dashboard \<Rightarrow> error + json" where
  "sendMessage_returns message s =
     (case fst (sendMessage message s) of Some e \<Rightarrow> Inl e | None \<Rightarrow> Inr JUndefined)"

text \<open>The four commands, lines 293-307.\<close>

definition startMonitoring :: "dashboard \<Rightarrow> outcome" where
  "startMonitoring s = sendMessage (JObj [(''type'', JStr ''START_MONITORING'')]) s"

definition stopMonitoring :: "dashboard \<Rightarrow> outcome" where
  "stopMonitoring s = sendMessage (JObj [(''type'', JStr ''STOP_MONITORING'')]) s"

definition simulateThreat :: "dashboard \<Rightarrow> outcome" where
  "simulateThreat s = sendMessage (JObj [(''type'', JStr ''SIMULATE_THREAT'')]) s"

definition requestStatusUpdate :: "dashboard \<Rightarrow> outcome" where
  "requestStatusUpdate s = sendMessage (JObj [(''type'', JStr ''GET_STATUS'')]) s"

section \<open>Connection\<close>

text \<open>\<^verbatim>\<open>attemptReconnect()\<close>, lines 57-66.\<close>

definition attemptReconnect :: "dashboard \<Rightarrow> dashboard" where
  "attemptReconnect s =
     (if reconnectAttempts s < maxReconnectAttempts s then
        s\<lparr>reconnectAttempts := Suc (reconnectAttempts s),
          console := console s @
            [Log ''Attempting reconnect''
               [JNum (int (Suc (reconnectAttempts s))), JNum (int (maxReconnectAttempts s))]],
          timers := timers s @ [(clock s + 3000, Reconnect)]\<rparr>
      else updateStatus ''failed''
             (s\<lparr>console := console s @ [Error ''Max reconnection attempts reached'' []]\<rparr>))"

text \<open>
  \<^verbatim>\<open>connectWebSocket()\<close>, lines 20-55. Whether \<^verbatim>\<open>new WebSocket(wsUrl)\<close> throws is
  the browser's decision, the parameter \<open>throws\<close>. When it does not, the new socket is
  stored in \<^verbatim>\<open>this.ws\<close> and the four handlers below are attached to it.
\<close>

definition connectWebSocket :: "bool \<Rightarrow> dashboard \<Rightarrow> dashboard" where
  "connectWebSocket throws s =
     (if throws
      then attemptReconnect (s\<lparr>console := console s @ [Error ''Failed to connect WebSocket:'' []]\<rparr>)
      else s\<lparr>ws := Some CONNECTING\<rparr>)"

text \<open>\<^verbatim>\<open>ws.onopen\<close>, lines 27-33.\<close>

definition onopen :: "dashboard \<Rightarrow> outcome" where
  "onopen s =
     requestStatusUpdate
       (updateStatus ''connected''
          (s\<lparr>console := console s @ [Log ''Connected to agent dashboard'' []],
             isConnected := True,
             reconnectAttempts := 0\<rparr>))"

text \<open>
  \<^verbatim>\<open>ws.onmessage\<close>, lines 35-37. \<open>None\<close> is a frame that is not JSON text:
  \<^verbatim>\<open>JSON.parse\<close> throws.
\<close>

definition onmessage :: "json option \<Rightarrow> dashboard \<Rightarrow> outcome" where
  "onmessage frame s =
     (case frame of None \<Rightarrow> (Some SyntaxError, s) | Some message \<Rightarrow> handleMessage message s)"

text \<open>\<^verbatim>\<open>ws.onclose\<close>, lines 39-44.\<close>

definition onclose :: "dashboard \<Rightarrow> dashboard" where
  "onclose s =
     attemptReconnect
       (updateStatus ''disconnected''
          (s\<lparr>console := console s @ [Log ''Disconnected from agent dashboard'' []],
             isConnected := False\<rparr>))"

text \<open>\<^verbatim>\<open>ws.onerror\<close>, lines 46-49.\<close>

definition onerror :: "dashboard \<Rightarrow> dashboard" where
  "onerror s = updateStatus ''error'' (s\<lparr>console := console s @ [Error ''WebSocket error:'' []]\<rparr>)"

text \<open>
  The constructor, lines 3-11, on a page \<open>page\<close> (its elements, the clock, the console):
  the four fields are set, \<^verbatim>\<open>initializeDashboard\<close> writes the status \<^verbatim>\<open>initializing\<close>,
  and \<^verbatim>\<open>connectWebSocket\<close> opens the first socket. The charts that
  \<^verbatim>\<open>initializeCharts\<close> creates belong to the chart library and are not modelled; the
  listeners of \<^verbatim>\<open>initializeEventListeners\<close> are the click events below.
\<close>

definition AgentDashboard :: "bool \<Rightarrow> dashboard \<Rightarrow> dashboard" where
  "AgentDashboard throws page =
     connectWebSocket throws
       (updateStatus ''initializing''
          (page\<lparr>ws := None, isConnected := False, reconnectAttempts := 0,
                maxReconnectAttempts := 5\<rparr>))"

section \<open>The event loop\<close>

text \<open>
  What the browser can do to the dashboard: deliver an event of the socket in
  \<^verbatim>\<open>this.ws\<close>, let time pass, run a timeout that is due (the \<open>k\<close>-th pending one;
  the flag says whether a \<^verbatim>\<open>new WebSocket\<close> made by the callback throws), or deliver
  a click on one of the four buttons.
\<close>

datatype event =
    WsOpen
  | WsMessage "json option"
  | WsClose
  | WsError
  | Elapse nat
  | Fire nat bool
  | ClickStartMonitoring
  | ClickStopMonitoring
  | ClickSimulateThreat
  | ClickRequestStatus

text \<open>An exception that leaves a handler is reported on the console; the page goes on.\<close>

fun uncaught :: "outcome \<Rightarrow> dashboard" where
  "uncaught (None, s) = s"
| "uncaught (Some e, s) = s\<lparr>console := console s @ [Uncaught e]\<rparr>"

text \<open>Running a timer callback.\<close>

fun run_callback :: "callback \<Rightarrow> bool \<Rightarrow> dashboard \<Rightarrow> dashboard" where
  "run_callback Reconnect throws s = connectWebSocket throws s"
| "run_callback (RemoveAlert n) throws s = removeAlert n s"

text \<open>
  One step. A socket opens only while connecting, delivers messages only while open,
  and closes (or fails) once, while connecting or open; a timeout runs only when it is
  pending and due, and is no longer pending when its callback runs. An event that
  cannot happen in the state leaves it as it is.
\<close>

definition step :: "event \<Rightarrow> dashboard \<Rightarrow> dashboard" where
  "step e s =
     (case e of
        WsOpen \<Rightarrow>
          if ws s = Some CONNECTING then uncaught (onopen (s\<lparr>ws := Some OPEN\<rparr>)) else s
      | WsMessage frame \<Rightarrow>
          if ws s = Some OPEN then uncaught (onmessage frame s) else s
      | WsClose \<Rightarrow>
          if ws s = Some CONNECTING \<or> ws s = Some OPEN then onclose (s\<lparr>ws := Some CLOSED\<rparr>) else s
      | WsError \<Rightarrow>
          if ws s = Some CONNECTING \<or> ws s = Some OPEN then onerror s else s
      | Elapse dt \<Rightarrow> s\<lparr>clock := clock s + dt\<rparr>
      | Fire k throws \<Rightarrow>
          if k < length (timers s) \<and> fst (timers s ! k) \<le> clock s
          then run_callback (snd (timers s ! k)) throws
                 (s\<lparr>timers := take k (timers s) @ drop (Suc k) (timers s)\<rparr>)
          else s
      | ClickStartMonitoring \<Rightarrow> uncaught (startMonitoring s)
      | ClickStopMonitoring \<Rightarrow> uncaught (stopMonitoring s)
      | ClickSimulateThreat \<Rightarrow> uncaught (simulateThreat s)
      | ClickRequestStatus \<Rightarrow> uncaught (requestStatusUpdate s))"

text \<open>A sequence of events, in order.\<close>

fun run :: "event list \<Rightarrow> dashboard \<Rightarrow> dashboard" where
  "run [] s = s"
| "run (e # es) s = run es (step e s)"

text \<open>A page with all five elements, empty, at time 0.\<close>

definition page0 :: dashboard where
  "page0 = \<lparr>ws = None, isConnected = False, reconnectAttempts = 0, maxReconnectAttempts = 0,
            agent_status = Some [], system_info = Some [], threat_stats = Some [],
            alerts_container = Some [], event_log = Some [],
            clock = 0, timers = [], next_node = 0, sent = [], console = []\<rparr>"

section \<open>The admin dashboard: polling\<close>

text \<open>
  File \<^verbatim>\<open>central_system/admin/static/js/dashboard.js\<close>, class \<^verbatim>\<open>DashboardUpdater\<close>.
  The state is the field \<^verbatim>\<open>statsInterval\<close>, the intervals of the page (handle and
  period; \<^verbatim>\<open>setInterval\<close> hands out handles from 1) and the requests made to the
  backend. What the responses write to the page, and the chart, are the backend's and the
  chart library's and are not modelled.
\<close>

record updater =
  statsInterval :: "nat option"
  intervals :: "(nat \<times> nat) list"
  next_handle :: nat
  requests :: "string list"


text \<open>The three polls, lines 24-65: each one request.\<close>

definition updateStats :: "updater \<Rightarrow> updater" where
  "updateStats u = u\<lparr>requests := requests u @ [''/admin/api/stats'']\<rparr>"

definition updateIncidents :: "updater \<Rightarrow> updater" where
  "updateIncidents u = u\<lparr>requests := requests u @ [''/admin/api/incidents/recent'']\<rparr>"

definition updateAgents :: "updater \<Rightarrow> updater" where
  "updateAgents u = u\<lparr>requests := requests u @ [''/admin/api/agents/status'']\<rparr>"

text \<open>\<^verbatim>\<open>startRealTimeUpdates()\<close>, lines 13-22.\<close>

definition startRealTimeUpdates :: "updater \<Rightarrow> updater" where
  "startRealTimeUpdates u =
     updateStats
       (u\<lparr>statsInterval := Some (next_handle u),
          intervals := intervals u @ [(next_handle u, 5000)],
          next_handle := Suc (next_handle u)\<rparr>)"

text \<open>The callback of the interval, lines 15-19, run by the browser for a handle that is set.\<close>

definition interval_tick :: "nat \<Rightarrow> updater \<Rightarrow> updater" where
  "interval_tick h u =
     (if h \<in> fst ` set (intervals u) then updateAgents (updateIncidents (updateStats u)) else u)"

text \<open>\<^verbatim>\<open>stop()\<close>, lines 106-110. \<^verbatim>\<open>clearInterval\<close> removes the interval with that handle.\<close>

definition stop :: "updater \<Rightarrow> updater" where
  "stop u =
     (case statsInterval u of
        None \<Rightarrow> u
      | Some h \<Rightarrow>
          if h \<noteq> 0 then u\<lparr>intervals := filter (\<lambda>(h', period). h' \<noteq> h) (intervals u)\<rparr> else u)"


section \<open>The console: toasts\<close>

text \<open>
  File \<^verbatim>\<open>central_system/console/static/js/dashboard.js\<close>, function \<^verbatim>\<open>showToast\<close>.
  The state is the toasts in \<^verbatim>\<open>document.body\<close>, the pending timeouts (due time and the
  toast node the callback closes over), the clock and the next node.
\<close>

record toast =
  toast_node :: nat
  toast_type :: string
  toast_message :: string

record console_page =
  body :: "toast list"
  timeouts :: "(nat \<times> nat) list"
  now :: nat
  next_toast :: nat

text \<open>\<^verbatim>\<open>showToast(message, type)\<close>, lines 34-46.\<close>

definition showToast :: "string \<Rightarrow> string \<Rightarrow> console_page \<Rightarrow> console_page" where
  "showToast message kind p =
     p\<lparr>body := body p @ [\<lparr>toast_node = next_toast p, toast_type = kind, toast_message = message\<rparr>],
       timeouts := timeouts p @ [(now p + 5000, next_toast p)],
       next_toast := Suc (next_toast p)\<rparr>"

text \<open>
  \<^verbatim>\<open>toast.remove()\<close>: the callback of the timeout, and what the close button of the
  toast does when clicked (line 40).
\<close>

definition toast_remove :: "nat \<Rightarrow> console_page \<Rightarrow> console_page" where
  "toast_remove n p = p\<lparr>body := filter (\<lambda>t. toast_node t \<noteq> n) (body p)\<rparr>"

text \<open>
  What happens on the console page: a toast is shown, time passes, a pending timeout
  that is due runs, the user clicks the close button of a toast.
\<close>

datatype toast_event =
    ShowToast string string
  | ToastElapse nat
  | ToastFire nat
  | ToastClose nat

definition toast_step :: "toast_event \<Rightarrow> console_page \<Rightarrow> console_page" where
  "toast_step e p =
     (case e of
        ShowToast message kind \<Rightarrow> showToast message kind p
      | ToastElapse dt \<Rightarrow> p\<lparr>now := now p + dt\<rparr>
      | ToastFire k \<Rightarrow>
          if k < length (timeouts p) \<and> fst (timeouts p ! k) \<le> now p
          then toast_remove (snd (timeouts p ! k))
                 (p\<lparr>timeouts := take k (timeouts p) @ drop (Suc k) (timeouts p)\<rparr>)
          else p
      | ToastClose n \<Rightarrow> toast_remove n p)"

fun toast_run :: "toast_event list \<Rightarrow> console_page \<Rightarrow> console_page" where
  "toast_run [] p = p"
| "toast_run (e # es) p = toast_run es (toast_step e p)"

definition console_page0 :: console_page where
  "console_page0 = \<lparr>body = [], timeouts = [], now = 0, next_toast = 0\<rparr>"

section \<open>Auxiliary notions for the properties\<close>

text \<open>A sequence of calls of \<^verbatim>\<open>addToEventLog\<close>, each with its three arguments.\<close>

fun appendAll :: "(string \<times> html \<times> string) list \<Rightarrow> dashboard \<Rightarrow> outcome" where
  "appendAll [] s = (None, s)"
| "appendAll ((eventType, message, level) # rest) s =
     and_then (addToEventLog eventType message level s) (appendAll rest)"

text \<open>The entry that \<^verbatim>\<open>addToEventLog\<close> builds at time \<open>t\<close>.\<close>

definition new_entry :: "nat \<Rightarrow> string \<times> html \<times> string \<Rightarrow> log_entry" where
  "new_entry t a =
     (case a of (eventType, message, level) \<Rightarrow>
        \<lparr>entry_level = level, entry_eventType = eventType, entry_message = message,
         entry_time = t\<rparr>)"

text \<open>Two partial snapshots, each with one counter.\<close>

definition snapshot_a :: json where
  "snapshot_a = JObj [(''total_detections'', JNum 5)]"

definition snapshot_b :: json where
  "snapshot_b = JObj [(''layer1_supervised'', JNum 3)]"

text \<open>The six message types that \<^verbatim>\<open>handleMessage\<close> has a case for.\<close>

definition inbound_types :: "string list" where
  "inbound_types = [''THREAT_DETECTED'', ''EMERGENCY_RESPONSE'', ''HIGH_ALERT_RESPONSE'',
                    ''ENHANCED_MONITORING'', ''STATUS_UPDATE'', ''COMMAND_EXECUTED'']"

text \<open>A dashboard just constructed on the empty page, and the same once its socket is open.\<close>

definition fresh_dashboard :: dashboard where
  "fresh_dashboard = AgentDashboard False page0"

definition connected_dashboard :: dashboard where
  "connected_dashboard = step WsOpen fresh_dashboard"

text \<open>An event log of 50 entries written at the times 49 down to 0, on a page at time 50.\<close>

definition full_log :: "log_entry list" where
  "full_log =
     map (\<lambda>t. new_entry t (''COMMAND_EXECUTED'', [Lit ''Executed: ''], ''info'')) (rev [0..<50])"

definition full_page :: dashboard where
  "full_page = page0\<lparr>event_log := Some full_log, clock := 50\<rparr>"

text \<open>
  Three messages of type \<^verbatim>\<open>THREAT_DETECTED\<close>: a complete one, one without
  \<^verbatim>\<open>detection_stats\<close> and one without \<^verbatim>\<open>data\<close>; and a message of no known type.
\<close>

definition threat_data :: json where
  "threat_data = JObj [(''threat_level'', JStr ''critical''), (''confidence'', JNum 1)]"

definition threat_message :: json where
  "threat_message =
     JObj [(''type'', JStr ''THREAT_DETECTED''), (''data'', threat_data),
           (''detection_stats'', snapshot_b)]"



definition unknown_message :: json where
  "unknown_message = JObj [(''type'', JStr ''FOO_UNKNOWN'')]"

text \<open>The console line that \<^verbatim>\<open>attemptReconnect\<close> writes for each attempt, line 60.\<close>

definition counts_attempt :: "console_entry \<Rightarrow> bool" where
  "counts_attempt e = (case e of Log text args \<Rightarrow> text = ''Attempting reconnect'' | _ \<Rightarrow> False)"

text \<open>The console line that \<^verbatim>\<open>onopen\<close> writes, line 28.\<close>

definition marks_connected :: "console_entry \<Rightarrow> bool" where
  "marks_connected e = (e = Log ''Connected to agent dashboard'' [])"

text \<open>The number of reconnect attempts made since the socket last opened, read off the console:
  each attempt line counts one, the line of a successful connection starts the count again.\<close>

definition attempts_made :: "console_entry list \<Rightarrow> nat" where
  "attempts_made entries =
     foldl (\<lambda>n e. if marks_connected e then 0 else if counts_attempt e then Suc n else n) 0 entries"

text \<open>A console line that is neither of the two.\<close>

definition neutral :: "console_entry \<Rightarrow> bool" where
  "neutral e = (\<not> marks_connected e \<and> \<not> counts_attempt e)"

text \<open>What handling one inbound frame may change: nothing of the connection, the clock or the
  frames sent; timeouts and alerts are only added, for fresh nodes, each timeout due 10000 ms
  from now; the console only gains lines that are neither attempt nor connection lines.\<close>

definition msg_step :: "dashboard \<Rightarrow> dashboard \<Rightarrow> bool" where
  "msg_step s s' \<longleftrightarrow>
     ws s' = ws s \<and> isConnected s' = isConnected s
   \<and> reconnectAttempts s' = reconnectAttempts s
   \<and> maxReconnectAttempts s' = maxReconnectAttempts s
   \<and> clock s' = clock s \<and> sent s' = sent s \<and> agent_status s' = agent_status s
   \<and> next_node s \<le> next_node s'
   \<and> (\<exists>new. timers s' = timers s @ new
         \<and> (\<forall>t\<in>set new. fst t = clock s + 10000
               \<and> (\<exists>m. snd t = RemoveAlert m \<and> next_node s \<le> m \<and> m < next_node s')))
   \<and> (\<exists>added. alerts_container s' = map_option ((@) added) (alerts_container s)
         \<and> (\<forall>a\<in>set added. next_node s \<le> alert_node a \<and> alert_node a < next_node s'))
   \<and> (\<exists>extra. console s' = console s @ extra \<and> (\<forall>e\<in>set extra. neutral e))"

text \<open>The part of \<open>msg_step\<close> about the connection fields.\<close>

definition same_core :: "dashboard \<Rightarrow> dashboard \<Rightarrow> bool" where
  "same_core s s' \<longleftrightarrow>
     ws s' = ws s \<and> isConnected s' = isConnected s
   \<and> reconnectAttempts s' = reconnectAttempts s
   \<and> maxReconnectAttempts s' = maxReconnectAttempts s
   \<and> clock s' = clock s \<and> sent s' = sent s \<and> agent_status s' = agent_status s
   \<and> next_node s \<le> next_node s'"

text \<open>The socket in \<^verbatim>\<open>this.ws\<close> is connecting or open: it can still open, deliver messages or close.\<close>

definition alive :: "dashboard \<Rightarrow> bool" where
  "alive s = (ws s = Some CONNECTING \<or> ws s = Some OPEN)"

text \<open>The number of pending timeouts that will call \<^verbatim>\<open>connectWebSocket\<close>.\<close>

definition n_reconnect :: "dashboard \<Rightarrow> nat" where
  "n_reconnect s = length (filter (\<lambda>t. snd t = Reconnect) (timers s))"

text \<open>The invariant of the attempt counter.\<close>

definition attempts_inv :: "dashboard \<Rightarrow> bool" where
  "attempts_inv s \<longleftrightarrow>
     maxReconnectAttempts s = 5 \<and> reconnectAttempts s \<le> 5
   \<and> reconnectAttempts s = attempts_made (console s)"

text \<open>The invariant of the connection: \<^verbatim>\<open>isConnected\<close> only with an open socket, no reconnect
  pending while the socket is alive, and never two reconnects pending.\<close>

definition conn_inv :: "dashboard \<Rightarrow> bool" where
  "conn_inv s \<longleftrightarrow>
     (isConnected s \<longrightarrow> ws s = Some OPEN)
   \<and> (alive s \<longrightarrow> n_reconnect s = 0)
   \<and> n_reconnect s \<le> 1"

text \<open>No socket alive and no reconnect pending.\<close>

definition dead :: "dashboard \<Rightarrow> bool" where
  "dead s \<longleftrightarrow> \<not> alive s \<and> n_reconnect s = 0"

text \<open>A console without the line of a successful connection.\<close>

definition never_connected :: "console_entry list \<Rightarrow> bool" where
  "never_connected entries = (\<forall>e\<in>set entries. \<not> marks_connected e)"

text \<open>A failed retry: the delay passes, the reconnect timeout runs and opens a socket, and that
  socket closes without having opened.\<close>

definition retry :: "event list" where
  "retry = [Elapse 3000, Fire 0 False, WsClose]"

text \<open>The status display that \<^verbatim>\<open>updateStatus('failed')\<close> writes while disconnected.\<close>

definition failed_status :: "(string \<times> json) list" where
  "failed_status = [(''class'', JStr ''status-failed''), (''Agent Status:'', JStr ''FAILED''),
                    (''WebSocket:'', JStr ''Disconnected'')]"

text \<open>
  Five consecutive failed connection attempts of a dashboard just constructed: the first
  socket closes, and so do the sockets of four retries. Then the fifth retry is pending;
  \<open>fifth_retry\<close> lets it open its socket.
\<close>

definition five_failures :: "event list" where
  "five_failures = WsClose # retry @ retry @ retry @ retry"

definition fifth_retry :: "event list" where
  "fifth_retry = [Elapse 3000, Fire 0 False]"

text \<open>The alerts container holds the alert node \<open>n\<close>.\<close>

definition has_alert :: "nat \<Rightarrow> dashboard \<Rightarrow> bool" where
  "has_alert n s =
     (case alerts_container s of None \<Rightarrow> False | Some alerts \<Rightarrow> n \<in> alert_node ` set alerts)"

text \<open>Every node that a pending timeout or the alerts container refers to has been created:
  its number is below the next one. It holds on a page whose container is empty and that has
  no timeouts, and every step keeps it.\<close>

definition nodes_fresh :: "dashboard \<Rightarrow> bool" where
  "nodes_fresh s \<longleftrightarrow>
     (\<forall>t\<in>set (timers s). case snd t of RemoveAlert m \<Rightarrow> m < next_node s | Reconnect \<Rightarrow> True)
   \<and> (case alerts_container s of
         None \<Rightarrow> True
       | Some alerts \<Rightarrow> \<forall>a\<in>set alerts. alert_node a < next_node s)"

text \<open>The invariant of the alert node \<open>n\<close> whose timeout is due at \<open>d\<close>: every timeout for
  \<open>n\<close> is due at \<open>d\<close>; while the alert is in the container its timeout is pending; once it
  is not, the time \<open>d\<close> has come.\<close>

definition expiry_inv :: "nat \<Rightarrow> nat \<Rightarrow> dashboard \<Rightarrow> bool" where
  "expiry_inv n d s \<longleftrightarrow>
     n < next_node s
   \<and> (\<forall>t\<in>set (timers s). snd t = RemoveAlert n \<longrightarrow> fst t = d)
   \<and> (has_alert n s \<longrightarrow> (d, RemoveAlert n) \<in> set (timers s))
   \<and> (\<not> has_alert n s \<longrightarrow> d \<le> clock s)"

text \<open>The body of the console page holds the toast node \<open>n\<close>.\<close>

definition has_toast :: "nat \<Rightarrow> console_page \<Rightarrow> bool" where
  "has_toast n p = (n \<in> toast_node ` set (body p))"

text \<open>The same for the console page.\<close>

definition toasts_fresh :: "console_page \<Rightarrow> bool" where
  "toasts_fresh p \<longleftrightarrow>
     (\<forall>t\<in>set (timeouts p). snd t < next_toast p)
   \<and> (\<forall>x\<in>set (body p). toast_node x < next_toast p)"

text \<open>The invariant of the toast node \<open>n\<close> whose timeout is due at \<open>d\<close>.\<close>

definition toast_inv :: "nat \<Rightarrow> nat \<Rightarrow> console_page \<Rightarrow> bool" where
  "toast_inv n d p \<longleftrightarrow>
     n < next_toast p
   \<and> (\<forall>t\<in>set (timeouts p). snd t = n \<longrightarrow> fst t = d)
   \<and> (has_toast n p \<longrightarrow> (d, n) \<in> set (timeouts p))
   \<and> (\<not> has_toast n p \<longrightarrow> d \<le> now p)"

text \<open>The content of an alert made from \<open>threat_data\<close>.\<close>

definition threat_content :: html where
  "threat_content = [Lit ''Level: '', Val (JStr ''CRITICAL''), Lit '' | Confidence: '',
                     Percent (JNum 1), Lit ''%'']"

text \<open>The empty page after one threat alert at time 0, and after a second one 500 ms later.\<close>

definition one_alert :: dashboard where
  "one_alert = snd (showAlert ''threat'' threat_data page0)"

definition two_alerts :: dashboard where
  "two_alerts = snd (showAlert ''threat'' threat_data (step (Elapse 500) one_alert))"

text \<open>The empty console page after one toast.\<close>

definition one_toast :: console_page where
  "one_toast = showToast ''Saved'' ''info'' console_page0"

text \<open>The event is the running of a timeout.\<close>

definition is_fire :: "event \<Rightarrow> bool" where
  "is_fire e = (case e of Fire k throws \<Rightarrow> True | _ \<Rightarrow> False)"



text \<open>The event opens the connecting socket.\<close>

definition opens :: "event \<Rightarrow> dashboard \<Rightarrow> bool" where
  "opens e s = (e = WsOpen \<and> ws s = Some CONNECTING)"

text \<open>The event runs a pending reconnect timeout that is due: a retry is made.\<close>

definition fires_reconnect :: "event \<Rightarrow> dashboard \<Rightarrow> bool" where
  "fires_reconnect e s =
     (case e of
        Fire k throws \<Rightarrow>
          k < length (timers s) \<and> fst (timers s ! k) \<le> clock s \<and> snd (timers s ! k) = Reconnect
      | _ \<Rightarrow> False)"

text \<open>The number of reconnect timeouts the event schedules: those pending after it, and the
  one it ran, less those pending before it.\<close>

definition schedules_reconnect :: "event \<Rightarrow> dashboard \<Rightarrow> nat" where
  "schedules_reconnect e s =
     n_reconnect (step e s) + (if fires_reconnect e s then 1 else 0) - n_reconnect s"

text \<open>The number of reconnect timeouts scheduled over a sequence of events since the socket last
  opened, starting from \<open>n\<close>.\<close>

fun attempts_since_open :: "nat \<Rightarrow> event list \<Rightarrow> dashboard \<Rightarrow> nat" where
  "attempts_since_open n [] s = n"
| "attempts_since_open n (e # es) s =
     attempts_since_open (if opens e s then 0 else n + schedules_reconnect e s) es (step e s)"

text \<open>The number of retries made over a sequence of events.\<close>

fun retries_run :: "event list \<Rightarrow> dashboard \<Rightarrow> nat" where
  "retries_run [] s = 0"
| "retries_run (e # es) s = (if fires_reconnect e s then 1 else 0) + retries_run es (step e s)"

text \<open>The number of closes of a live socket over a sequence of events.\<close>

fun disconnections :: "event list \<Rightarrow> dashboard \<Rightarrow> nat" where
  "disconnections [] s = 0"
| "disconnections (e # es) s =
     (if e = WsClose \<and> alive s then 1 else 0) + disconnections es (step e s)"

text \<open>The \<^verbatim>\<open>new WebSocket\<close> of a retry does not throw.\<close>

definition constructor_ok :: "event \<Rightarrow> bool" where
  "constructor_ok e = (case e of Fire k throws \<Rightarrow> \<not> throws | _ \<Rightarrow> True)"

text \<open>The command that \<^verbatim>\<open>startMonitoring\<close> sends.\<close>

definition start_command :: json where
  "start_command = JObj [(''type'', JStr ''START_MONITORING'')]"

section \<open>Properties\<close>

subsection \<open>Helper lemmas\<close>

lemma trim_log_take: "trim_log xs = take 50 xs"
proof (induction xs rule: trim_log.induct)
  case (1 xs)
  show ?case
  proof (cases "length xs > 50")
    case True
    then have "trim_log xs = take 50 (butlast xs)"
      using 1 by (simp add: trim_log.simps [of xs])
    also have "\<dots> = take 50 xs"
      using True by (simp add: butlast_conv_take)
    finally show ?thesis .
  next
    case False
    then show ?thesis by (simp add: trim_log.simps [of xs])
  qed
qed

lemma addToEventLog_Some:
  "event_log s = Some entries \<Longrightarrow>
   addToEventLog eventType message level s =
     (None, s\<lparr>event_log := Some (take 50 (new_entry (clock s) (eventType, message, level) # entries))\<rparr>)"
  by (simp add: addToEventLog_def trim_log_take new_entry_def)

subsection \<open>Statistics\<close>

text \<open>
  C1, as the claim states it, fails. On a page whose statistics element is empty, the
  snapshot with \<open>total_detections = 5\<close> followed by the snapshot with
  \<open>layer1_supervised = 3\<close> leaves a display whose total is 0; the field by field merge of
  the specification would keep the 5.
\<close>

theorem updateThreatStats_merge_counterexample:
  "threat_stats (updateThreatStats snapshot_b (updateThreatStats snapshot_a page0)) =
     Some [(''Total Detections:'', JNum 0), (''Supervised ML:'', JNum 3),
           (''Anomaly Detection:'', JNum 0), (''Rule-based:'', JNum 0),
           (''Slow Ransomware:'', JNum 0)]
   \<and> merge_spec (merge_spec [] snapshot_a) snapshot_b =
     [(''Total Detections:'', JNum 5), (''Supervised ML:'', JNum 3),
      (''Anomaly Detection:'', JNum 0), (''Rule-based:'', JNum 0),
      (''Slow Ransomware:'', JNum 0)]
   \<and> threat_stats (updateThreatStats snapshot_b (updateThreatStats snapshot_a page0))
       \<noteq> Some (merge_spec (merge_spec [] snapshot_a) snapshot_b)"
  by (simp add: updateThreatStats_def render_stats_def stats_fields_def js_or_def
      merge_spec_def page0_def snapshot_a_def snapshot_b_def)

text \<open>
  C1, amended: \<^verbatim>\<open>updateThreatStats\<close> replaces the displayed snapshot as a whole. On
  a page with the statistics element, a truthy snapshot \<open>p\<close> leaves exactly its own
  rendering, where a counter it lacks reads 0, whatever was displayed before; so of two
  snapshots applied in sequence only the second shows, and applying the same snapshot
  again changes nothing. An absent snapshot (\<^verbatim>\<open>undefined\<close>) changes nothing.
\<close>

theorem updateThreatStats_replaces:
  assumes "threat_stats s \<noteq> None" and "truthy p"
  shows "threat_stats (updateThreatStats p s) = Some (render_stats p)
       \<and> render_stats p =
           map (\<lambda>(label, key). (label, js_or (get_field p key) (JNum 0))) stats_fields
       \<and> updateThreatStats p (updateThreatStats q s) = updateThreatStats p s
       \<and> updateThreatStats p (updateThreatStats p s) = updateThreatStats p s
       \<and> updateThreatStats JUndefined s = s"
  using assms by (simp add: updateThreatStats_def render_stats_def)

theorem updateThreatStats_replaces_witness:
  "threat_stats page0 \<noteq> None \<and> truthy snapshot_b
   \<and> threat_stats (updateThreatStats snapshot_b page0) =
       Some [(''Total Detections:'', JNum 0), (''Supervised ML:'', JNum 3),
             (''Anomaly Detection:'', JNum 0), (''Rule-based:'', JNum 0),
             (''Slow Ransomware:'', JNum 0)]
   \<and> updateThreatStats snapshot_b (updateThreatStats snapshot_a page0) =
       updateThreatStats snapshot_b page0"
proof -
  have h1: "threat_stats page0 \<noteq> None" by (simp add: page0_def)
  have h2: "truthy snapshot_b" by (simp add: snapshot_b_def)
  have "render_stats snapshot_b =
       [(''Total Detections:'', JNum 0), (''Supervised ML:'', JNum 3),
        (''Anomaly Detection:'', JNum 0), (''Rule-based:'', JNum 0),
        (''Slow Ransomware:'', JNum 0)]"
    by (simp add: render_stats_def stats_fields_def js_or_def snapshot_b_def)
  with h1 h2 updateThreatStats_replaces [OF h1 h2, of snapshot_a] show ?thesis by simp
qed

subsection \<open>Event log\<close>

lemma appendAll_log:
  "event_log s = Some entries \<Longrightarrow> length entries \<le> 50 \<Longrightarrow>
   appendAll xs s =
     (None, s\<lparr>event_log := Some (take 50 (rev (map (new_entry (clock s)) xs) @ entries))\<rparr>)"
proof (induction xs arbitrary: s entries)
  case Nil
  then show ?case by simp
next
  case (Cons a xs)
  obtain eventType message level where a: "a = (eventType, message, level)"
    by (cases a) auto
  let ?e = "new_entry (clock s) a"
  let ?s1 = "s\<lparr>event_log := Some (take 50 (?e # entries))\<rparr>"
  have step1: "addToEventLog eventType message level s = (None, ?s1)"
    using Cons.prems(1) a by (simp add: addToEventLog_Some)
  have "appendAll xs ?s1 =
    (None, ?s1\<lparr>event_log := Some (take 50 (rev (map (new_entry (clock ?s1)) xs) @ take 50 (?e # entries)))\<rparr>)"
    by (rule Cons.IH) simp_all
  moreover have "take 50 (rev (map (new_entry (clock s)) xs) @ take 50 (?e # entries))
      = take 50 (rev (map (new_entry (clock s)) (a # xs)) @ entries)"
    using Cons.prems(2) by (simp add: take_Cons' min_def)
  ultimately show ?case
    using step1 a by simp
qed

text \<open>
  C4: on a page with the event log, holding at most 50 entries, an append inserts the
  new entry at the head and leaves at most 50 entries: all the old ones, in order,
  when there were fewer than 50, and all but the last (the oldest) when there were 50,
  so that the second oldest is the new tail. A sequence of appends leaves the 50 newest,
  newest first, and never throws.
\<close>

theorem addToEventLog_bounded:
  assumes "event_log s = Some entries" and "length entries \<le> 50"
  shows "addToEventLog eventType message level s =
           (None, s\<lparr>event_log := Some (new_entry (clock s) (eventType, message, level) #
                      (if length entries = 50 then butlast entries else entries))\<rparr>)
       \<and> length (new_entry (clock s) (eventType, message, level) #
                      (if length entries = 50 then butlast entries else entries)) \<le> 50
       \<and> (if length entries = 50 then last (butlast entries) = entries ! 48 else True)
       \<and> appendAll xs s =
           (None, s\<lparr>event_log := Some (take 50 (rev (map (new_entry (clock s)) xs) @ entries))\<rparr>)
       \<and> length (take 50 (rev (map (new_entry (clock s)) xs) @ entries)) \<le> 50"
proof -
  let ?e = "new_entry (clock s) (eventType, message, level)"
  let ?rest = "if length entries = 50 then butlast entries else entries"
  have "take 50 (?e # entries) = ?e # ?rest"
    using assms(2) by (simp add: take_Cons' butlast_conv_take)
  then have c1: "addToEventLog eventType message level s =
      (None, s\<lparr>event_log := Some (?e # ?rest)\<rparr>)"
    using assms(1) by (simp add: addToEventLog_Some)
  have c2: "length (?e # ?rest) \<le> 50"
    using assms(2) by simp
  have c3: "if length entries = 50 then last (butlast entries) = entries ! 48 else True"
    by (simp add: last_conv_nth nth_butlast flip: length_greater_0_conv)
  have c4: "appendAll xs s =
      (None, s\<lparr>event_log := Some (take 50 (rev (map (new_entry (clock s)) xs) @ entries))\<rparr>)"
    using assms by (rule appendAll_log)
  have c5: "length (take 50 (rev (map (new_entry (clock s)) xs) @ entries)) \<le> 50"
    by (simp del: take_append)
  show ?thesis by (intro conjI c1 c2 c3 c4 c5)
qed

lemma full_log_length: "length full_log = 50"
  by (simp add: full_log_def)

theorem addToEventLog_bounded_witness:
  "event_log full_page = Some full_log \<and> length full_log \<le> 50
   \<and> event_log (snd (addToEventLog ''THREAT_DETECTED'' [] ''critical'' full_page)) =
       Some (new_entry 50 (''THREAT_DETECTED'', [], ''critical'') # butlast full_log)
   \<and> last (butlast full_log) = new_entry 1 (''COMMAND_EXECUTED'', [Lit ''Executed: ''], ''info'')
   \<and> last full_log = new_entry 0 (''COMMAND_EXECUTED'', [Lit ''Executed: ''], ''info'')"
proof -
  have h1: "event_log full_page = Some full_log" by (simp add: full_page_def)
  have h2: "length full_log \<le> 50" by (simp add: full_log_def)
  have c: "clock full_page = 50" by (simp add: full_page_def)
  have n: "full_log ! 48 = new_entry 1 (''COMMAND_EXECUTED'', [Lit ''Executed: ''], ''info'')"
    by (simp add: full_log_def rev_nth)
  have l: "last full_log = new_entry 0 (''COMMAND_EXECUTED'', [Lit ''Executed: ''], ''info'')"
    by (simp add: full_log_def last_map last_rev)
  show ?thesis
    using addToEventLog_bounded [OF h1 h2, of "''THREAT_DETECTED''" "[]" "''critical''" "[]"] h1 c n l
    by (simp add: full_log_length)
qed

subsection \<open>Two concrete states\<close>

lemma fresh_dashboard_eq:
  "fresh_dashboard =
     page0\<lparr>ws := Some CONNECTING, maxReconnectAttempts := 5,
           agent_status := Some [(''class'', JStr ''status-initializing''),
                                 (''Agent Status:'', JStr ''INITIALIZING''),
                                 (''WebSocket:'', JStr ''Disconnected'')]\<rparr>"
  by (simp add: fresh_dashboard_def AgentDashboard_def connectWebSocket_def updateStatus_def
      page0_def toUpperCase_def)

lemma connected_dashboard_eq:
  "connected_dashboard =
     page0\<lparr>ws := Some OPEN, isConnected := True, maxReconnectAttempts := 5,
           agent_status := Some [(''class'', JStr ''status-connected''),
                                 (''Agent Status:'', JStr ''CONNECTED''),
                                 (''WebSocket:'', JStr ''Connected'')],
           sent := [JObj [(''type'', JStr ''GET_STATUS'')]],
           console := [Log ''Connected to agent dashboard'' []]\<rparr>"
  by (simp add: connected_dashboard_def fresh_dashboard_eq step_def onopen_def
      requestStatusUpdate_def sendMessage_def ws_send_def updateStatus_def page0_def
      toUpperCase_def)

subsection \<open>Dispatch\<close>

text \<open>
  C6: a message whose \<^verbatim>\<open>type\<close> can be read and is none of the six handled types
  only adds the line \<^verbatim>\<open>Unknown message type:\<close> with that type to the console:
  nothing is thrown, the event log and everything else stay as they are, and the
  messages that follow are processed from that state.
\<close>

theorem handleMessage_unknown:
  assumes "get_prop message ''type'' = Inr t" and "t \<notin> JStr ` set inbound_types"
  shows "handleMessage message s =
           (None, s\<lparr>console := console s @ [Log ''Unknown message type:'' [t]]\<rparr>)
       \<and> event_log (snd (handleMessage message s)) = event_log s
       \<and> (ws s = Some OPEN \<longrightarrow>
            run (WsMessage (Some message) # es) s =
            run es (s\<lparr>console := console s @ [Log ''Unknown message type:'' [t]]\<rparr>))"
  using assms by (auto simp: handleMessage_def inbound_types_def step_def onmessage_def)

theorem handleMessage_unknown_witness:
  "get_prop unknown_message ''type'' = Inr (JStr ''FOO_UNKNOWN'')
   \<and> JStr ''FOO_UNKNOWN'' \<notin> JStr ` set inbound_types
   \<and> ws connected_dashboard = Some OPEN
   \<and> handleMessage unknown_message connected_dashboard =
       (None, connected_dashboard\<lparr>console := console connected_dashboard @
                [Log ''Unknown message type:'' [JStr ''FOO_UNKNOWN'']]\<rparr>)
   \<and> run [WsMessage (Some unknown_message), WsMessage (Some unknown_message)] connected_dashboard =
       connected_dashboard\<lparr>console := console connected_dashboard @
          [Log ''Unknown message type:'' [JStr ''FOO_UNKNOWN''],
           Log ''Unknown message type:'' [JStr ''FOO_UNKNOWN'']]\<rparr>"
proof -
  let ?t = "JStr ''FOO_UNKNOWN''"
  let ?s1 = "connected_dashboard\<lparr>console := console connected_dashboard @
                [Log ''Unknown message type:'' [?t]]\<rparr>"
  have h1: "get_prop unknown_message ''type'' = Inr ?t"
    by (simp add: unknown_message_def)
  have h2: "?t \<notin> JStr ` set inbound_types"
    by (simp add: inbound_types_def)
  have o: "ws connected_dashboard = Some OPEN" "ws ?s1 = Some OPEN"
    by (simp_all add: connected_dashboard_eq)
  show ?thesis
    using handleMessage_unknown [OF h1 h2, of connected_dashboard "[WsMessage (Some unknown_message)]"]
      handleMessage_unknown [OF h1 h2, of ?s1 "[]"] h1 h2 o
    by simp
qed

subsection \<open>Connecting\<close>

text \<open>
  C8: when the connecting socket opens, the dashboard is connected, its count of
  reconnect attempts is 0, and the command \<^verbatim>\<open>GET_STATUS\<close> has been transmitted, with
  no other trigger. Both the constructor and the reconnect timer leave a connecting
  socket, so this holds for the first connection and for every reconnection.
\<close>

theorem onopen_requests_status:
  assumes "ws s = Some CONNECTING"
  shows "ws (step WsOpen s) = Some OPEN \<and> isConnected (step WsOpen s)
       \<and> reconnectAttempts (step WsOpen s) = 0
       \<and> sent (step WsOpen s) = sent s @ [JObj [(''type'', JStr ''GET_STATUS'')]]
       \<and> ws (AgentDashboard False page) = Some CONNECTING
       \<and> ws (run_callback Reconnect False s') = Some CONNECTING"
  using assms
  by (simp add: step_def onopen_def requestStatusUpdate_def sendMessage_def ws_send_def
      updateStatus_def AgentDashboard_def connectWebSocket_def split: option.splits)

theorem onopen_requests_status_witness:
  "ws fresh_dashboard = Some CONNECTING
   \<and> isConnected (step WsOpen fresh_dashboard)
   \<and> sent (step WsOpen fresh_dashboard) = [JObj [(''type'', JStr ''GET_STATUS'')]]"
proof -
  have h: "ws fresh_dashboard = Some CONNECTING"
    by (simp add: fresh_dashboard_eq)
  have "sent fresh_dashboard = []"
    by (simp add: fresh_dashboard_eq page0_def)
  with h onopen_requests_status [OF h] show ?thesis by simp
qed

subsection \<open>Threat messages\<close>




subsection \<open>What a step may change\<close>

lemma msg_stepI:
  assumes "same_core s s'"
    and "timers s' = timers s @ new"
    and "\<And>t. t \<in> set new \<Longrightarrow> fst t = clock s + 10000
               \<and> (\<exists>m. snd t = RemoveAlert m \<and> next_node s \<le> m \<and> m < next_node s')"
    and "alerts_container s' = map_option ((@) added) (alerts_container s)"
    and "\<And>a. a \<in> set added \<Longrightarrow> next_node s \<le> alert_node a \<and> alert_node a < next_node s'"
    and "console s' = console s @ extra"
    and "\<And>e. e \<in> set extra \<Longrightarrow> neutral e"
  shows "msg_step s s'"
  unfolding msg_step_def
proof (intro conjI)
  show "\<exists>new. timers s' = timers s @ new
         \<and> (\<forall>t\<in>set new. fst t = clock s + 10000
               \<and> (\<exists>m. snd t = RemoveAlert m \<and> next_node s \<le> m \<and> m < next_node s'))"
    using assms(2,3) by blast
  show "\<exists>added. alerts_container s' = map_option ((@) added) (alerts_container s)
         \<and> (\<forall>a\<in>set added. next_node s \<le> alert_node a \<and> alert_node a < next_node s')"
    using assms(4,5) by blast
  show "\<exists>extra. console s' = console s @ extra \<and> (\<forall>e\<in>set extra. neutral e)"
    using assms(6,7) by blast
qed (use assms(1) in \<open>simp_all add: same_core_def\<close>)

lemma msg_stepE:
  assumes "msg_step s s'"
  obtains new added extra where "same_core s s'"
    and "timers s' = timers s @ new"
    and "\<And>t. t \<in> set new \<Longrightarrow> fst t = clock s + 10000
               \<and> (\<exists>m. snd t = RemoveAlert m \<and> next_node s \<le> m \<and> m < next_node s')"
    and "alerts_container s' = map_option ((@) added) (alerts_container s)"
    and "\<And>a. a \<in> set added \<Longrightarrow> next_node s \<le> alert_node a \<and> alert_node a < next_node s'"
    and "console s' = console s @ extra"
    and "\<And>e. e \<in> set extra \<Longrightarrow> neutral e"
proof -
  from assms have core: "same_core s s'"
    by (simp add: msg_step_def same_core_def)
  from assms obtain new where n: "timers s' = timers s @ new"
      "\<forall>t\<in>set new. fst t = clock s + 10000
               \<and> (\<exists>m. snd t = RemoveAlert m \<and> next_node s \<le> m \<and> m < next_node s')"
    unfolding msg_step_def by (elim conjE exE)
  from assms obtain added where a: "alerts_container s' = map_option ((@) added) (alerts_container s)"
      "\<forall>a\<in>set added. next_node s \<le> alert_node a \<and> alert_node a < next_node s'"
    unfolding msg_step_def by (elim conjE exE)
  from assms obtain extra where e: "console s' = console s @ extra" "\<forall>e\<in>set extra. neutral e"
    unfolding msg_step_def by (elim conjE exE)
  show thesis
    by (rule that [OF core n(1) _ a(1) _ e(1)]) (use n(2) a(2) e(2) in blast)+
qed

lemma map_option_append_Nil: "map_option ((@) []) x = x"
  by (cases x) auto

lemma msg_step_refl: "msg_step s s"
  by (rule msg_stepI [where new = "[]" and added = "[]" and extra = "[]"])
    (simp_all add: same_core_def map_option_append_Nil)

lemma msg_step_trans:
  assumes "msg_step s s1" and "msg_step s1 s2"
  shows "msg_step s s2"
proof -
  from assms(1) obtain new1 added1 extra1 where
    a: "same_core s s1"
    and t1: "timers s1 = timers s @ new1"
       "\<And>t. t \<in> set new1 \<Longrightarrow> fst t = clock s + 10000
               \<and> (\<exists>m. snd t = RemoveAlert m \<and> next_node s \<le> m \<and> m < next_node s1)"
    and al1: "alerts_container s1 = map_option ((@) added1) (alerts_container s)"
       "\<And>a. a \<in> set added1 \<Longrightarrow> next_node s \<le> alert_node a \<and> alert_node a < next_node s1"
    and c1: "console s1 = console s @ extra1" "\<And>e. e \<in> set extra1 \<Longrightarrow> neutral e"
    by (rule msg_stepE) blast
  from assms(2) obtain new2 added2 extra2 where
    b: "same_core s1 s2"
    and t2: "timers s2 = timers s1 @ new2"
       "\<And>t. t \<in> set new2 \<Longrightarrow> fst t = clock s1 + 10000
               \<and> (\<exists>m. snd t = RemoveAlert m \<and> next_node s1 \<le> m \<and> m < next_node s2)"
    and al2: "alerts_container s2 = map_option ((@) added2) (alerts_container s1)"
       "\<And>a. a \<in> set added2 \<Longrightarrow> next_node s1 \<le> alert_node a \<and> alert_node a < next_node s2"
    and c2: "console s2 = console s1 @ extra2" "\<And>e. e \<in> set extra2 \<Longrightarrow> neutral e"
    by (rule msg_stepE) blast
  have le: "next_node s \<le> next_node s1" "next_node s1 \<le> next_node s2" "clock s1 = clock s"
    using a b by (simp_all add: same_core_def)
  show ?thesis
  proof (rule msg_stepI [where new = "new1 @ new2" and added = "added2 @ added1"
        and extra = "extra1 @ extra2"])
    show "same_core s s2" using a b by (simp add: same_core_def)
    show "timers s2 = timers s @ new1 @ new2" using t1(1) t2(1) by simp
    show "alerts_container s2 = map_option ((@) (added2 @ added1)) (alerts_container s)"
      using al1(1) al2(1) by (cases "alerts_container s") auto
    show "console s2 = console s @ extra1 @ extra2" using c1(1) c2(1) by simp
  next
    fix t assume "t \<in> set (new1 @ new2)"
    then consider "t \<in> set new1" | "t \<in> set new2" by auto
    then show "fst t = clock s + 10000
               \<and> (\<exists>m. snd t = RemoveAlert m \<and> next_node s \<le> m \<and> m < next_node s2)"
    proof cases
      case 1
      from t1(2) [OF 1] le show ?thesis by (auto intro: less_le_trans)
    next
      case 2
      from t2(2) [OF 2] le show ?thesis by (auto intro: le_trans)
    qed
  next
    fix a assume "a \<in> set (added2 @ added1)"
    then consider "a \<in> set added1" | "a \<in> set added2" by auto
    then show "next_node s \<le> alert_node a \<and> alert_node a < next_node s2"
    proof cases
      case 1
      from al1(2) [OF 1] le show ?thesis by auto
    next
      case 2
      from al2(2) [OF 2] le show ?thesis by auto
    qed
  next
    fix e assume "e \<in> set (extra1 @ extra2)"
    then show "neutral e" using c1(2) c2(2) by auto
  qed
qed

lemma msg_step_page_only:
  assumes "same_core s s'" and "timers s' = timers s"
    and "alerts_container s' = alerts_container s" and "console s' = console s"
  shows "msg_step s s'"
  by (rule msg_stepI [where new = "[]" and added = "[]" and extra = "[]"])
    (use assms in \<open>simp_all add: map_option_append_Nil\<close>)

lemma showAlert_msg_step: "msg_step s (snd (showAlert kind data s))"
proof (cases "formatAlertContent data")
  case (Inl e)
  then show ?thesis
    by (auto simp: showAlert_def Let_def same_core_def intro!: msg_step_page_only)
next
  case (Inr content)
  show ?thesis
  proof (cases "alerts_container s")
    case None
    then show ?thesis
      using Inr by (auto simp: showAlert_def Let_def same_core_def intro!: msg_step_page_only)
  next
    case (Some alerts)
    show ?thesis
      by (rule msg_stepI [where new = "[(clock s + 10000, RemoveAlert (next_node s))]"
            and added = "[\<lparr>alert_node = next_node s, alert_kind = kind,
                             alert_title = getAlertTitle kind, alert_content = content,
                             alert_time = clock s\<rparr>]"
            and extra = "[]"])
        (use Inr Some in \<open>simp_all add: showAlert_def Let_def same_core_def\<close>)
  qed
qed

lemma addToEventLog_msg_step: "msg_step s (snd (addToEventLog eventType message level s))"
  by (cases "event_log s")
    (auto simp: addToEventLog_def same_core_def intro!: msg_step_page_only)

lemma updateThreatStats_msg_step: "msg_step s (updateThreatStats stats s)"
  by (auto simp: updateThreatStats_def same_core_def intro!: msg_step_page_only)

lemma updateSystemInfo_msg_step: "msg_step s (updateSystemInfo statusData s)"
  by (auto simp: updateSystemInfo_def same_core_def intro!: msg_step_page_only)

lemma and_then_msg_step:
  assumes "msg_step s (snd out)" and "\<And>s1. msg_step s1 (snd (f s1))"
  shows "msg_step s (snd (and_then out f))"
proof (cases out)
  case (Pair e s1)
  show ?thesis
  proof (cases e)
    case None
    with Pair assms(1) assms(2) [of s1] show ?thesis
      by (auto intro: msg_step_trans)
  next
    case (Some a)
    with Pair assms(1) show ?thesis by simp
  qed
qed

lemma handleThreatDetected_msg_step: "msg_step s (snd (handleThreatDetected message s))"
  unfolding handleThreatDetected_def
  by (intro and_then_msg_step showAlert_msg_step addToEventLog_msg_step)
    (simp add: updateThreatStats_msg_step)

lemma join_log_msg_step:
  "msg_step s (snd (case js_join v sep of
       Inl e \<Rightarrow> (Some e, s)
     | Inr joined \<Rightarrow> addToEventLog eventType (message joined) level s))"
  by (cases "js_join v sep") (simp_all add: msg_step_refl addToEventLog_msg_step)

lemma handleEmergencyResponse_msg_step: "msg_step s (snd (handleEmergencyResponse message s))"
  unfolding handleEmergencyResponse_def
  by (intro and_then_msg_step showAlert_msg_step join_log_msg_step)

lemma handleHighAlertResponse_msg_step: "msg_step s (snd (handleHighAlertResponse message s))"
  unfolding handleHighAlertResponse_def
  by (intro and_then_msg_step showAlert_msg_step join_log_msg_step)

lemma handleEnhancedMonitoring_msg_step: "msg_step s (snd (handleEnhancedMonitoring message s))"
  unfolding handleEnhancedMonitoring_def
  by (intro and_then_msg_step showAlert_msg_step addToEventLog_msg_step)

lemma handleStatusUpdate_msg_step: "msg_step s (snd (handleStatusUpdate message s))"
  unfolding handleStatusUpdate_def updateDashboard_def
  by (simp add: msg_step_trans [OF updateSystemInfo_msg_step updateThreatStats_msg_step])

lemma handleCommandExecuted_msg_step: "msg_step s (snd (handleCommandExecuted message s))"
  unfolding handleCommandExecuted_def by (rule join_log_msg_step)

lemma console_msg_step:
  "neutral e \<Longrightarrow> msg_step s (s\<lparr>console := console s @ [e]\<rparr>)"
  by (rule msg_stepI [where new = "[]" and added = "[]" and extra = "[e]"])
    (simp_all add: same_core_def map_option_append_Nil)

lemma neutral_simps [simp]:
  "neutral (Uncaught err)" "neutral (Error text args)"
  "neutral (Log ''Unknown message type:'' args)"
  by (simp_all add: neutral_def marks_connected_def counts_attempt_def)

lemma handleMessage_msg_step: "msg_step s (snd (handleMessage message s))"
  unfolding handleMessage_def
  by (cases "get_prop message ''type''")
    (simp_all add: msg_step_refl handleThreatDetected_msg_step handleEmergencyResponse_msg_step
      handleHighAlertResponse_msg_step handleEnhancedMonitoring_msg_step
      handleStatusUpdate_msg_step handleCommandExecuted_msg_step console_msg_step)

lemma uncaught_msg_step:
  assumes "msg_step s (snd out)"
  shows "msg_step s (uncaught out)"
proof (cases out)
  case (Pair e s1)
  show ?thesis
  proof (cases e)
    case None
    with Pair assms show ?thesis by simp
  next
    case (Some err)
    have "msg_step s1 (s1\<lparr>console := console s1 @ [Uncaught err]\<rparr>)"
      by (rule console_msg_step) simp
    with Pair Some assms show ?thesis
      by (auto intro: msg_step_trans)
  qed
qed

lemma onmessage_msg_step: "msg_step s (uncaught (onmessage frame s))"
  by (rule uncaught_msg_step)
    (cases frame; simp add: onmessage_def msg_step_refl handleMessage_msg_step)

lemma sendMessage_frame:
  "\<exists>extra frames. uncaught (sendMessage message s) =
      s\<lparr>sent := sent s @ frames, console := console s @ extra\<rparr> \<and> (\<forall>e\<in>set extra. neutral e)"
proof (cases "ws s \<noteq> None \<and> isConnected s")
  case False
  then have "uncaught (sendMessage message s) =
      s\<lparr>sent := sent s @ [], console := console s @ [Error ''WebSocket not connected'' []]\<rparr>"
    by (auto simp: sendMessage_def)
  then show ?thesis by (metis insert_iff list.set(1,2) neutral_simps(2) empty_iff)
next
  case True
  then obtain r where r: "ws s = Some r" by auto
  show ?thesis
  proof (cases r)
    case CONNECTING
    then have "uncaught (sendMessage message s) =
      s\<lparr>sent := sent s @ [], console := console s @ [Uncaught InvalidStateError]\<rparr>"
      using True r by (simp add: sendMessage_def ws_send_def)
    then show ?thesis by (metis insert_iff list.set(1,2) neutral_simps(1) empty_iff)
  next
    case OPEN
    then have "uncaught (sendMessage message s) =
      s\<lparr>sent := sent s @ [message], console := console s @ []\<rparr>"
      using True r by (simp add: sendMessage_def ws_send_def)
    then show ?thesis by (metis empty_iff list.set(1))
  next
    case CLOSED
    then have "uncaught (sendMessage message s) =
      s\<lparr>sent := sent s @ [], console := console s @ []\<rparr>"
      using True r by (simp add: sendMessage_def ws_send_def)
    then show ?thesis by (metis empty_iff list.set(1))
  qed
qed

lemma updateStatus_fields [simp]:
  "ws (updateStatus st s) = ws s"
  "isConnected (updateStatus st s) = isConnected s"
  "reconnectAttempts (updateStatus st s) = reconnectAttempts s"
  "maxReconnectAttempts (updateStatus st s) = maxReconnectAttempts s"
  "system_info (updateStatus st s) = system_info s"
  "threat_stats (updateStatus st s) = threat_stats s"
  "alerts_container (updateStatus st s) = alerts_container s"
  "event_log (updateStatus st s) = event_log s"
  "clock (updateStatus st s) = clock s"
  "timers (updateStatus st s) = timers s"
  "next_node (updateStatus st s) = next_node s"
  "sent (updateStatus st s) = sent s"
  "console (updateStatus st s) = console s"
  by (simp_all add: updateStatus_def split: option.splits)

lemma attempts_made_snoc:
  "attempts_made (c @ [e]) =
     (if marks_connected e then 0
      else if counts_attempt e then Suc (attempts_made c) else attempts_made c)"
  by (simp add: attempts_made_def)

lemma attempts_made_neutral:
  "(\<And>e. e \<in> set extra \<Longrightarrow> neutral e) \<Longrightarrow> attempts_made (c @ extra) = attempts_made c"
proof (induction extra rule: rev_induct)
  case Nil
  then show ?case by simp
next
  case (snoc x xs)
  then have "neutral x" and "attempts_made (c @ xs) = attempts_made c" by simp_all
  then show ?case
    using attempts_made_snoc [of "c @ xs" x] by (simp add: neutral_def)
qed

lemma attemptReconnect_below:
  "reconnectAttempts s < maxReconnectAttempts s \<Longrightarrow>
   attemptReconnect s =
     s\<lparr>reconnectAttempts := Suc (reconnectAttempts s),
       console := console s @
         [Log ''Attempting reconnect''
            [JNum (int (Suc (reconnectAttempts s))), JNum (int (maxReconnectAttempts s))]],
       timers := timers s @ [(clock s + 3000, Reconnect)]\<rparr>"
  by (simp add: attemptReconnect_def)

lemma attemptReconnect_exhausted:
  "\<not> reconnectAttempts s < maxReconnectAttempts s \<Longrightarrow>
   attemptReconnect s =
     updateStatus ''failed''
       (s\<lparr>console := console s @ [Error ''Max reconnection attempts reached'' []]\<rparr>)"
  by (simp add: attemptReconnect_def)

lemma entry_kinds [simp]:
  "counts_attempt (Log ''Attempting reconnect'' args)"
  "\<not> marks_connected (Log ''Attempting reconnect'' args)"
  "marks_connected (Log ''Connected to agent dashboard'' [])"
  "neutral (Log ''Disconnected from agent dashboard'' [])"
  by (simp_all add: neutral_def marks_connected_def counts_attempt_def)

lemma attemptReconnect_attempts_inv:
  assumes "attempts_inv s"
  shows "attempts_inv (attemptReconnect s)"
proof (cases "reconnectAttempts s < maxReconnectAttempts s")
  case True
  then show ?thesis
    using assms
    by (simp add: attemptReconnect_below attempts_inv_def attempts_made_snoc)
next
  case False
  then show ?thesis
    using assms attempts_made_neutral [of "[Error ''Max reconnection attempts reached'' []]" "console s"]
    by (simp add: attemptReconnect_exhausted attempts_inv_def)
qed

lemma attempts_inv_neutral:
  assumes "attempts_inv s" and "neutral e"
  shows "attempts_inv (s\<lparr>console := console s @ [e]\<rparr>)"
  using assms attempts_made_neutral [of "[e]" "console s"]
  by (simp add: attempts_inv_def)

lemma msg_step_attempts_inv:
  assumes "msg_step s s'" and "attempts_inv s"
  shows "attempts_inv s'"
proof -
  from assms(1) obtain extra where "same_core s s'" "console s' = console s @ extra"
    "\<And>e. e \<in> set extra \<Longrightarrow> neutral e"
    by (rule msg_stepE) blast
  then show ?thesis
    using assms(2) attempts_made_neutral [of extra "console s"]
    by (simp add: attempts_inv_def same_core_def)
qed

lemma sendMessage_attempts_inv:
  assumes "attempts_inv s"
  shows "attempts_inv (uncaught (sendMessage message s))"
proof -
  obtain extra frames where
    "uncaught (sendMessage message s) = s\<lparr>sent := sent s @ frames, console := console s @ extra\<rparr>"
    "\<forall>e\<in>set extra. neutral e"
    using sendMessage_frame by blast
  then show ?thesis
    using assms attempts_made_neutral [of extra "console s"]
    by (simp add: attempts_inv_def)
qed

lemma onopen_attempts_inv:
  assumes "maxReconnectAttempts s = 5"
  shows "attempts_inv (uncaught (onopen s))"
proof -
  let ?s1 = "updateStatus ''connected''
          (s\<lparr>console := console s @ [Log ''Connected to agent dashboard'' []],
             isConnected := True, reconnectAttempts := 0\<rparr>)"
  have "attempts_inv ?s1"
    using assms by (simp add: attempts_inv_def attempts_made_snoc)
  then show ?thesis
    unfolding onopen_def requestStatusUpdate_def by (rule sendMessage_attempts_inv)
qed

lemma connectWebSocket_attempts_inv:
  assumes "attempts_inv s"
  shows "attempts_inv (connectWebSocket throws s)"
proof (cases throws)
  case True
  have "attempts_inv (s\<lparr>console := console s @ [Error ''Failed to connect WebSocket:'' []]\<rparr>)"
    by (rule attempts_inv_neutral [OF assms]) simp
  then show ?thesis
    using True by (simp add: connectWebSocket_def attemptReconnect_attempts_inv)
next
  case False
  then show ?thesis
    using assms by (simp add: connectWebSocket_def attempts_inv_def)
qed

lemma removeAlert_attempts_inv:
  "attempts_inv s \<Longrightarrow> attempts_inv (removeAlert n s)"
  by (simp add: removeAlert_def attempts_inv_def)

lemma step_attempts_inv:
  assumes "attempts_inv s"
  shows "attempts_inv (step e s)"
proof (cases e)
  case WsOpen
  then show ?thesis
    using assms onopen_attempts_inv [of "s\<lparr>ws := Some OPEN\<rparr>"]
    by (simp add: step_def attempts_inv_def)
next
  case (WsMessage frame)
  then show ?thesis
    using assms msg_step_attempts_inv [OF onmessage_msg_step] by (simp add: step_def)
next
  case WsClose
  have "attempts_inv (updateStatus ''disconnected''
          (s\<lparr>ws := Some CLOSED,
             console := console s @ [Log ''Disconnected from agent dashboard'' []],
             isConnected := False\<rparr>))"
    using assms attempts_made_neutral [of "[Log ''Disconnected from agent dashboard'' []]" "console s"]
    by (simp add: attempts_inv_def)
  then show ?thesis
    using assms WsClose by (simp add: step_def onclose_def attemptReconnect_attempts_inv)
next
  case WsError
  then show ?thesis
    using assms attempts_made_neutral [of "[Error ''WebSocket error:'' []]" "console s"]
    by (simp add: step_def onerror_def attempts_inv_def)
next
  case (Elapse dt)
  then show ?thesis using assms by (simp add: step_def attempts_inv_def)
next
  case (Fire k throws)
  show ?thesis
  proof (cases "k < length (timers s) \<and> fst (timers s ! k) \<le> clock s")
    case False
    then show ?thesis using assms Fire by (auto simp: step_def)
  next
    case True
    let ?s1 = "s\<lparr>timers := take k (timers s) @ drop (Suc k) (timers s)\<rparr>"
    have s1: "attempts_inv ?s1" using assms by (simp add: attempts_inv_def)
    have "attempts_inv (run_callback cb throws ?s1)" for cb
      by (cases cb) (simp_all add: connectWebSocket_attempts_inv [OF s1] removeAlert_attempts_inv [OF s1])
    then show ?thesis using True Fire by (simp add: step_def)
  qed
next
  case ClickStartMonitoring
  then show ?thesis using assms by (simp add: step_def startMonitoring_def sendMessage_attempts_inv)
next
  case ClickStopMonitoring
  then show ?thesis using assms by (simp add: step_def stopMonitoring_def sendMessage_attempts_inv)
next
  case ClickSimulateThreat
  then show ?thesis using assms by (simp add: step_def simulateThreat_def sendMessage_attempts_inv)
next
  case ClickRequestStatus
  then show ?thesis using assms by (simp add: step_def requestStatusUpdate_def sendMessage_attempts_inv)
qed

lemma run_attempts_inv: "attempts_inv s \<Longrightarrow> attempts_inv (run es s)"
  by (induction es arbitrary: s) (simp_all add: step_attempts_inv)

lemma AgentDashboard_attempts_inv:
  assumes "console page = []"
  shows "attempts_inv (AgentDashboard throws page)"
proof -
  let ?s0 = "updateStatus ''initializing''
          (page\<lparr>ws := None, isConnected := False, reconnectAttempts := 0,
                maxReconnectAttempts := 5\<rparr>)"
  have s0: "attempts_inv ?s0"
    using assms by (simp add: attempts_inv_def attempts_made_def)
  then show ?thesis
    unfolding AgentDashboard_def by (rule connectWebSocket_attempts_inv)
qed

subsection \<open>Reconnection\<close>

lemma attempts_made_never_connected:
  "never_connected c \<Longrightarrow> attempts_made c = length (filter counts_attempt c)"
proof (induction c rule: rev_induct)
  case Nil
  then show ?case by (simp add: attempts_made_def)
next
  case (snoc x xs)
  then show ?case
    by (simp add: attempts_made_snoc never_connected_def)
qed

lemma never_connected_append:
  "never_connected (c @ extra) \<longleftrightarrow> never_connected c \<and> never_connected extra"
  by (auto simp: never_connected_def)

lemma never_connected_neutral:
  "(\<And>e. e \<in> set extra \<Longrightarrow> neutral e) \<Longrightarrow> never_connected extra"
  by (auto simp: never_connected_def neutral_def)

lemma never_connected_single [simp]:
  "never_connected [Error text args]" "never_connected [Uncaught err]"
  "never_connected [Log ''Attempting reconnect'' args]"
  "never_connected [Log ''Disconnected from agent dashboard'' []]"
  "never_connected []"
  by (simp_all add: never_connected_def marks_connected_def)

lemma attemptReconnect_never_connected:
  "never_connected (console s) \<Longrightarrow> never_connected (console (attemptReconnect s))"
  by (simp add: attemptReconnect_def never_connected_append)

lemma connectWebSocket_never_connected:
  "never_connected (console s) \<Longrightarrow> never_connected (console (connectWebSocket throws s))"
  by (simp add: connectWebSocket_def attemptReconnect_never_connected never_connected_append)

lemma sendMessage_never_connected:
  assumes "never_connected (console s)"
  shows "never_connected (console (uncaught (sendMessage message s)))"
proof -
  obtain extra frames where
    "uncaught (sendMessage message s) = s\<lparr>sent := sent s @ frames, console := console s @ extra\<rparr>"
    "\<forall>e\<in>set extra. neutral e"
    using sendMessage_frame by blast
  then show ?thesis
    using assms never_connected_neutral [of extra] by (simp add: never_connected_append)
qed

lemma step_never_connected:
  assumes "never_connected (console s)" and "e \<noteq> WsOpen"
  shows "never_connected (console (step e s))"
proof (cases e)
  case WsOpen
  with assms(2) show ?thesis by simp
next
  case (WsMessage frame)
  obtain extra where "console (uncaught (onmessage frame s)) = console s @ extra"
    "\<And>e. e \<in> set extra \<Longrightarrow> neutral e"
    using onmessage_msg_step [of s frame] by (rule msg_stepE) blast
  then show ?thesis
    using assms(1) WsMessage never_connected_neutral [of extra]
    by (simp add: step_def never_connected_append)
next
  case WsClose
  then show ?thesis
    using assms(1)
    by (simp add: step_def onclose_def attemptReconnect_never_connected never_connected_append)
next
  case WsError
  then show ?thesis
    using assms(1) by (simp add: step_def onerror_def never_connected_append)
next
  case (Elapse dt)
  then show ?thesis using assms(1) by (simp add: step_def)
next
  case (Fire k throws)
  have "never_connected (console (run_callback cb throws
          (s\<lparr>timers := take k (timers s) @ drop (Suc k) (timers s)\<rparr>)))" for cb
    using assms(1) by (cases cb) (simp_all add: connectWebSocket_never_connected removeAlert_def)
  then show ?thesis using assms(1) Fire by (simp add: step_def)
next
  case ClickStartMonitoring
  then show ?thesis using assms(1) by (simp add: step_def startMonitoring_def sendMessage_never_connected)
next
  case ClickStopMonitoring
  then show ?thesis using assms(1) by (simp add: step_def stopMonitoring_def sendMessage_never_connected)
next
  case ClickSimulateThreat
  then show ?thesis using assms(1) by (simp add: step_def simulateThreat_def sendMessage_never_connected)
next
  case ClickRequestStatus
  then show ?thesis using assms(1) by (simp add: step_def requestStatusUpdate_def sendMessage_never_connected)
qed

lemma run_never_connected:
  "never_connected (console s) \<Longrightarrow> WsOpen \<notin> set es \<Longrightarrow> never_connected (console (run es s))"
  by (induction es arbitrary: s) (auto simp: step_never_connected)

lemma AgentDashboard_never_connected:
  "console page = [] \<Longrightarrow> never_connected (console (AgentDashboard throws page))"
  by (simp add: AgentDashboard_def connectWebSocket_never_connected)

lemma onopen_resets: "reconnectAttempts (uncaught (onopen s)) = 0"
proof -
  let ?s1 = "updateStatus ''connected''
          (s\<lparr>console := console s @ [Log ''Connected to agent dashboard'' []],
             isConnected := True, reconnectAttempts := 0\<rparr>)"
  obtain extra frames where
    "uncaught (sendMessage (JObj [(''type'', JStr ''GET_STATUS'')]) ?s1) =
       ?s1\<lparr>sent := sent ?s1 @ frames, console := console ?s1 @ extra\<rparr>"
    using sendMessage_frame by blast
  then show ?thesis by (simp add: onopen_def requestStatusUpdate_def)
qed

lemma filter_remove_nth:
  assumes "k < length ts"
  shows "length (filter P (take k ts @ drop (Suc k) ts)) =
         length (filter P ts) - (if P (ts ! k) then 1 else 0)"
proof -
  have "ts = take k ts @ ts ! k # drop (Suc k) ts"
    using assms by (rule id_take_nth_drop)
  then have "filter P ts = filter P (take k ts) @ filter P (ts ! k # drop (Suc k) ts)"
    by (metis filter_append)
  then show ?thesis by simp
qed

lemma msg_step_n_reconnect:
  assumes "msg_step s s'"
  shows "n_reconnect s' = n_reconnect s"
proof -
  from assms obtain new where n: "timers s' = timers s @ new"
    "\<And>t. t \<in> set new \<Longrightarrow> fst t = clock s + 10000
               \<and> (\<exists>m. snd t = RemoveAlert m \<and> next_node s \<le> m \<and> m < next_node s')"
    by (rule msg_stepE) blast
  have "snd t \<noteq> Reconnect" if "t \<in> set new" for t
    using n(2) [OF that] by auto
  then have "filter (\<lambda>t. snd t = Reconnect) new = []"
    by (simp add: filter_empty_conv)
  then show ?thesis by (simp add: n_reconnect_def n(1))
qed

lemma msg_step_conn_inv:
  assumes "msg_step s s'" and "conn_inv s"
  shows "conn_inv s'"
proof -
  have "same_core s s'" using assms(1) by (simp add: msg_step_def same_core_def)
  then show ?thesis
    using assms(2) msg_step_n_reconnect [OF assms(1)]
    by (simp add: conn_inv_def alive_def same_core_def)
qed

lemma sendMessage_conn_fields:
  "ws (uncaught (sendMessage message s)) = ws s"
  "isConnected (uncaught (sendMessage message s)) = isConnected s"
  "timers (uncaught (sendMessage message s)) = timers s"
  "reconnectAttempts (uncaught (sendMessage message s)) = reconnectAttempts s"
  "agent_status (uncaught (sendMessage message s)) = agent_status s"
  "clock (uncaught (sendMessage message s)) = clock s"
  "alerts_container (uncaught (sendMessage message s)) = alerts_container s"
  "next_node (uncaught (sendMessage message s)) = next_node s"
  using sendMessage_frame [of message s] by auto

lemma sendMessage_conn_inv:
  "conn_inv s \<Longrightarrow> conn_inv (uncaught (sendMessage message s))"
  by (simp add: conn_inv_def alive_def n_reconnect_def sendMessage_conn_fields)

lemma attemptReconnect_conn:
  "ws (attemptReconnect s) = ws s" "isConnected (attemptReconnect s) = isConnected s"
  "timers (attemptReconnect s) =
     (if reconnectAttempts s < maxReconnectAttempts s
      then timers s @ [(clock s + 3000, Reconnect)] else timers s)"
  by (simp_all add: attemptReconnect_def)

lemma step_conn_inv:
  assumes "conn_inv s"
  shows "conn_inv (step e s)"
proof (cases e)
  case WsOpen
  then show ?thesis
    using assms
    by (auto simp: step_def onopen_def requestStatusUpdate_def sendMessage_conn_fields
        conn_inv_def alive_def n_reconnect_def)
next
  case (WsMessage frame)
  then show ?thesis
    using assms msg_step_conn_inv [OF onmessage_msg_step] by (simp add: step_def)
next
  case WsClose
  then show ?thesis
    using assms
    by (auto simp: step_def onclose_def attemptReconnect_conn conn_inv_def alive_def n_reconnect_def)
next
  case WsError
  then show ?thesis
    using assms by (simp add: step_def onerror_def conn_inv_def alive_def n_reconnect_def)
next
  case (Elapse dt)
  then show ?thesis
    using assms by (simp add: step_def conn_inv_def alive_def n_reconnect_def)
next
  case (Fire k throws)
  show ?thesis
  proof (cases "k < length (timers s) \<and> fst (timers s ! k) \<le> clock s")
    case False
    then show ?thesis using assms Fire by (auto simp: step_def)
  next
    case True
    let ?s1 = "s\<lparr>timers := take k (timers s) @ drop (Suc k) (timers s)\<rparr>"
    have n1: "length (filter (\<lambda>t. snd t = Reconnect) (timers ?s1)) =
        n_reconnect s - (if snd (timers s ! k) = Reconnect then 1 else 0)"
      using True by (simp add: n_reconnect_def filter_remove_nth del: filter_append)
    show ?thesis
    proof (cases "snd (timers s ! k)")
      case Reconnect
      have "timers s ! k \<in> set (timers s)" using True by simp
      then have "n_reconnect s \<noteq> 0"
        using Reconnect by (auto simp: n_reconnect_def filter_empty_conv)
      then have "length (filter (\<lambda>t. snd t = Reconnect) (timers ?s1)) = 0"
          "\<not> alive s" "\<not> isConnected s"
        using assms n1 Reconnect by (auto simp: conn_inv_def alive_def)
      then have "conn_inv (connectWebSocket throws ?s1)"
        by (auto simp: connectWebSocket_def attemptReconnect_conn conn_inv_def alive_def
            n_reconnect_def)
      then show ?thesis using True Fire Reconnect by (simp add: step_def)
    next
      case (RemoveAlert n)
      then have "conn_inv (removeAlert n ?s1)"
        using assms n1 by (simp add: removeAlert_def conn_inv_def alive_def n_reconnect_def)
      then show ?thesis using True Fire RemoveAlert by (simp add: step_def)
    qed
  qed
next
  case ClickStartMonitoring
  then show ?thesis using assms by (simp add: step_def startMonitoring_def sendMessage_conn_inv)
next
  case ClickStopMonitoring
  then show ?thesis using assms by (simp add: step_def stopMonitoring_def sendMessage_conn_inv)
next
  case ClickSimulateThreat
  then show ?thesis using assms by (simp add: step_def simulateThreat_def sendMessage_conn_inv)
next
  case ClickRequestStatus
  then show ?thesis using assms by (simp add: step_def requestStatusUpdate_def sendMessage_conn_inv)
qed

lemma run_conn_inv: "conn_inv s \<Longrightarrow> conn_inv (run es s)"
  by (induction es arbitrary: s) (simp_all add: step_conn_inv)

lemma AgentDashboard_conn_inv:
  "timers page = [] \<Longrightarrow> conn_inv (AgentDashboard throws page)"
  by (simp add: AgentDashboard_def connectWebSocket_def attemptReconnect_conn conn_inv_def
      alive_def n_reconnect_def)

lemma step_dead:
  assumes "dead s"
  shows "dead (step e s)"
proof (cases e)
  case (Fire k throws)
  show ?thesis
  proof (cases "k < length (timers s) \<and> fst (timers s ! k) \<le> clock s")
    case False
    then show ?thesis using assms Fire by (auto simp: step_def)
  next
    case True
    let ?s1 = "s\<lparr>timers := take k (timers s) @ drop (Suc k) (timers s)\<rparr>"
    have "timers s ! k \<in> set (timers s)" using True by simp
    then have "snd (timers s ! k) \<noteq> Reconnect"
      using assms by (auto simp: dead_def n_reconnect_def filter_empty_conv)
    then obtain n where n: "snd (timers s ! k) = RemoveAlert n"
      by (cases "snd (timers s ! k)") auto
    have "length (filter (\<lambda>t. snd t = Reconnect) (timers ?s1)) = 0"
      using True assms by (simp add: n_reconnect_def filter_remove_nth dead_def del: filter_append)
    then have "dead (removeAlert n ?s1)"
      using assms by (simp add: removeAlert_def dead_def alive_def n_reconnect_def)
    then show ?thesis using True Fire n by (simp add: step_def)
  qed
qed (use assms in \<open>auto simp: step_def dead_def alive_def n_reconnect_def sendMessage_conn_fields
      startMonitoring_def stopMonitoring_def simulateThreat_def requestStatusUpdate_def\<close>)

lemma run_dead: "dead s \<Longrightarrow> dead (run es s)"
  by (induction es arbitrary: s) (simp_all add: step_dead)

lemma close_below:
  assumes "alive s" and "reconnectAttempts s < maxReconnectAttempts s"
  shows "timers (step WsClose s) = timers s @ [(clock s + 3000, Reconnect)]"
    and "reconnectAttempts (step WsClose s) = Suc (reconnectAttempts s)"
    and "clock (step WsClose s) = clock s"
  using assms by (auto simp: step_def alive_def onclose_def attemptReconnect_def)

lemma close_exhausted:
  assumes "alive s" and "\<not> reconnectAttempts s < maxReconnectAttempts s"
  shows "timers (step WsClose s) = timers s"
    and "ws (step WsClose s) = Some CLOSED"
    and "agent_status (step WsClose s) = map_option (\<lambda>old. failed_status) (agent_status s)"
    and "console (step WsClose s) = console s @
           [Log ''Disconnected from agent dashboard'' [],
            Error ''Max reconnection attempts reached'' []]"
  using assms
  by (auto simp: step_def alive_def onclose_def attemptReconnect_def updateStatus_def
      failed_status_def toUpperCase_def split: option.splits)

text \<open>
  C3, amended. In every state \<open>s\<close> the dashboard reaches from its construction on a page
  without timers and console lines: \<^verbatim>\<open>reconnectAttempts\<close> is at most 5; a close of
  the live socket with \<^verbatim>\<open>reconnectAttempts\<close> below 5 increments it and schedules
  exactly one \<^verbatim>\<open>connectWebSocket\<close>, due 3000 ms later whatever the count, which
  cannot run at once; a close of the live socket with \<^verbatim>\<open>reconnectAttempts\<close> at 5,
  that is when the five retries have all failed, schedules nothing, writes the status
  \<^verbatim>\<open>failed\<close> and the error line, and from then on, whatever happens, no socket is
  alive and no reconnect is pending.
\<close>

theorem attemptReconnect_policy:
  assumes "timers page = []" and "console page = []"
    and "s = run es (AgentDashboard throws page)"
  shows "reconnectAttempts s \<le> 5
    \<and> (alive s \<and> reconnectAttempts s < 5 \<longrightarrow>
         timers (step WsClose s) = timers s @ [(clock s + 3000, Reconnect)]
       \<and> reconnectAttempts (step WsClose s) = Suc (reconnectAttempts s)
       \<and> step (Fire (length (timers s)) throws') (step WsClose s) = step WsClose s)
    \<and> (alive s \<and> reconnectAttempts s = 5 \<longrightarrow>
         timers (step WsClose s) = timers s
       \<and> agent_status (step WsClose s) = map_option (\<lambda>old. failed_status) (agent_status s)
       \<and> console (step WsClose s) = console s @
           [Log ''Disconnected from agent dashboard'' [],
            Error ''Max reconnection attempts reached'' []]
       \<and> (\<forall>es'. dead (run es' (step WsClose s))))"
proof -
  have a: "attempts_inv s"
    unfolding assms(3) using assms(2) by (intro run_attempts_inv AgentDashboard_attempts_inv)
  have c: "conn_inv s"
    unfolding assms(3) using assms(1) by (intro run_conn_inv AgentDashboard_conn_inv)
  have m: "maxReconnectAttempts s = 5" and le: "reconnectAttempts s \<le> 5"
    using a by (simp_all add: attempts_inv_def)
  have below: "timers (step WsClose s) = timers s @ [(clock s + 3000, Reconnect)]
       \<and> reconnectAttempts (step WsClose s) = Suc (reconnectAttempts s)
       \<and> step (Fire (length (timers s)) throws') (step WsClose s) = step WsClose s"
    if "alive s" "reconnectAttempts s < 5"
  proof -
    note cb = close_below [OF that(1)] 
    have lt: "reconnectAttempts s < maxReconnectAttempts s" using that(2) m by simp
    have "step (Fire (length (timers s)) throws') (step WsClose s) = step WsClose s"
      by (simp add: step_def [of "Fire (length (timers s)) throws'"] cb(1) [OF lt] cb(3) [OF lt])
    then show ?thesis using cb(1,2) [OF lt] by simp
  qed
  have exhausted: "timers (step WsClose s) = timers s
       \<and> agent_status (step WsClose s) = map_option (\<lambda>old. failed_status) (agent_status s)
       \<and> console (step WsClose s) = console s @
           [Log ''Disconnected from agent dashboard'' [],
            Error ''Max reconnection attempts reached'' []]
       \<and> (\<forall>es'. dead (run es' (step WsClose s)))"
    if "alive s" "reconnectAttempts s = 5"
  proof -
    have nlt: "\<not> reconnectAttempts s < maxReconnectAttempts s" using that(2) m by simp
    note ce = close_exhausted [OF that(1) nlt]
    have "n_reconnect s = 0" using c that(1) by (simp add: conn_inv_def)
    then have "dead (step WsClose s)"
      using ce(1,2) by (simp add: dead_def alive_def n_reconnect_def)
    then have "\<forall>es'. dead (run es' (step WsClose s))"
      by (simp add: run_dead)
    then show ?thesis using ce by simp
  qed
  show ?thesis using le below exhausted by blast
qed

lemmas eval_defs = retry_def step_def onclose_def attemptReconnect_def updateStatus_def
  page0_def toUpperCase_def connectWebSocket_def

lemma five_failures_state:
  "run five_failures fresh_dashboard =
     page0\<lparr>ws := Some CLOSED, reconnectAttempts := 5, maxReconnectAttempts := 5,
       agent_status := Some [(''class'', JStr ''status-disconnected''),
                             (''Agent Status:'', JStr ''DISCONNECTED''),
                             (''WebSocket:'', JStr ''Disconnected'')],
       clock := 12000, timers := [(15000, Reconnect)],
       console :=
         [Log ''Disconnected from agent dashboard'' [],
          Log ''Attempting reconnect'' [JNum 1, JNum 5],
          Log ''Disconnected from agent dashboard'' [],
          Log ''Attempting reconnect'' [JNum 2, JNum 5],
          Log ''Disconnected from agent dashboard'' [],
          Log ''Attempting reconnect'' [JNum 3, JNum 5],
          Log ''Disconnected from agent dashboard'' [],
          Log ''Attempting reconnect'' [JNum 4, JNum 5],
          Log ''Disconnected from agent dashboard'' [],
          Log ''Attempting reconnect'' [JNum 5, JNum 5]]\<rparr>"
  by (simp add: five_failures_def fresh_dashboard_eq eval_defs)

lemma run_append: "run (es @ es') s = run es' (run es s)"
  by (induction es arbitrary: s) simp_all

lemma fifth_retry_state:
  "run (five_failures @ fifth_retry) fresh_dashboard =
     (run five_failures fresh_dashboard)\<lparr>ws := Some CONNECTING, clock := 15000, timers := []\<rparr>"
  by (simp add: run_append five_failures_state fifth_retry_def step_def connectWebSocket_def page0_def)

text \<open>
  C3, as the claim states it, fails. After exactly five consecutive failed connection
  attempts of a new dashboard (the first connection and four retries) the status is
  \<^verbatim>\<open>disconnected\<close>, not \<^verbatim>\<open>failed\<close>, a fifth retry is scheduled, and when its
  time has come it opens a sixth socket.
\<close>

theorem five_failures_counterexample:
  "agent_status (run five_failures fresh_dashboard) =
     Some [(''class'', JStr ''status-disconnected''),
           (''Agent Status:'', JStr ''DISCONNECTED''),
           (''WebSocket:'', JStr ''Disconnected'')]
   \<and> agent_status (run five_failures fresh_dashboard) \<noteq> Some failed_status
   \<and> timers (run five_failures fresh_dashboard) = [(15000, Reconnect)]
   \<and> ws (run (five_failures @ fifth_retry) fresh_dashboard) = Some CONNECTING"
  by (simp add: fifth_retry_state five_failures_state failed_status_def)

theorem attemptReconnect_policy_witness:
  "timers page0 = [] \<and> console page0 = []
   \<and> alive fresh_dashboard \<and> reconnectAttempts fresh_dashboard < 5
   \<and> timers (step WsClose fresh_dashboard) = [(3000, Reconnect)]
   \<and> reconnectAttempts (step WsClose fresh_dashboard) = 1
   \<and> alive (run (five_failures @ fifth_retry) fresh_dashboard)
   \<and> reconnectAttempts (run (five_failures @ fifth_retry) fresh_dashboard) = 5
   \<and> timers (step WsClose (run (five_failures @ fifth_retry) fresh_dashboard)) = []
   \<and> agent_status (step WsClose (run (five_failures @ fifth_retry) fresh_dashboard)) =
       Some failed_status
   \<and> dead (run [Elapse 3000, Fire 0 False, ClickRequestStatus]
        (step WsClose (run (five_failures @ fifth_retry) fresh_dashboard)))"
proof -
  let ?s5 = "run (five_failures @ fifth_retry) fresh_dashboard"
  have h1: "timers page0 = []" and h2: "console page0 = []"
    by (simp_all add: page0_def)
  have r0: "fresh_dashboard = run [] (AgentDashboard False page0)"
    by (simp add: fresh_dashboard_def)
  have r5: "?s5 = run (five_failures @ fifth_retry) (AgentDashboard False page0)"
    by (simp add: fresh_dashboard_def)
  have a0: "alive fresh_dashboard" "reconnectAttempts fresh_dashboard < 5"
    "timers fresh_dashboard = []" "clock fresh_dashboard = 0"
    by (simp_all add: fresh_dashboard_eq alive_def page0_def)
  have a5: "alive ?s5" "reconnectAttempts ?s5 = 5" "timers ?s5 = []"
    "agent_status ?s5 \<noteq> None"
    by (simp_all add: fifth_retry_state five_failures_state alive_def page0_def)
  from a5(4) obtain old where old: "agent_status ?s5 = Some old" by auto
  have z: "reconnectAttempts fresh_dashboard = 0"
    by (simp add: fresh_dashboard_eq page0_def)
  note p0 = attemptReconnect_policy [OF h1 h2 r0, of False]
  note p5 = attemptReconnect_policy [OF h1 h2 r5, of False]
  from p5 a5(1,2) have "\<forall>es'. dead (run es' (step WsClose ?s5))"
    by blast
  then have d: "dead (run [Elapse 3000, Fire 0 False, ClickRequestStatus] (step WsClose ?s5))"
    by (rule spec)
  from p5 a5(1,2,3) old have f: "timers (step WsClose ?s5) = []"
      "agent_status (step WsClose ?s5) = Some failed_status"
    by simp_all
  from p0 a0 z have c: "timers (step WsClose fresh_dashboard) = [(3000, Reconnect)]"
      "reconnectAttempts (step WsClose fresh_dashboard) = 1"
    by simp_all
  show ?thesis
    by (intro conjI h1 h2 a0(1,2) a5(1,2) d f c)
qed

subsection \<open>Alert expiry\<close>

lemma set_remove_nth:
  assumes "k < length ts"
  shows "set (take k ts @ drop (Suc k) ts) \<subseteq> set ts"
    and "set ts \<subseteq> insert (ts ! k) (set (take k ts @ drop (Suc k) ts))"
proof -
  have "ts = take k ts @ ts ! k # drop (Suc k) ts"
    using assms by (rule id_take_nth_drop)
  then have "set ts = set (take k ts) \<union> insert (ts ! k) (set (drop (Suc k) ts))"
    by (metis set_append list.simps(15))
  then show "set (take k ts @ drop (Suc k) ts) \<subseteq> set ts"
    and "set ts \<subseteq> insert (ts ! k) (set (take k ts @ drop (Suc k) ts))"
    by auto
qed

lemma expiry_inv_extend:
  assumes "expiry_inv n d s"
    and "next_node s \<le> next_node s'" and "clock s \<le> clock s'"
    and "has_alert n s' = has_alert n s"
    and "timers s' = timers s @ new"
    and "\<And>t. t \<in> set new \<Longrightarrow> snd t \<noteq> RemoveAlert n"
  shows "expiry_inv n d s'"
  using assms by (auto simp: expiry_inv_def)

lemma msg_step_has_alert:
  assumes "msg_step s s'" and "n < next_node s"
  shows "has_alert n s' = has_alert n s"
proof -
  from assms(1) obtain added where a: "alerts_container s' = map_option ((@) added) (alerts_container s)"
    "\<And>a. a \<in> set added \<Longrightarrow> next_node s \<le> alert_node a \<and> alert_node a < next_node s'"
    by (rule msg_stepE) blast
  have "n \<notin> alert_node ` set added"
    using a(2) assms(2) by fastforce
  then show ?thesis
    by (cases "alerts_container s") (auto simp: has_alert_def a(1))
qed

lemma msg_step_expiry_inv:
  assumes "msg_step s s'" and "expiry_inv n d s"
  shows "expiry_inv n d s'"
proof -
  from assms(1) obtain new where c: "same_core s s'" and t: "timers s' = timers s @ new"
    "\<And>t. t \<in> set new \<Longrightarrow> fst t = clock s + 10000
               \<and> (\<exists>m. snd t = RemoveAlert m \<and> next_node s \<le> m \<and> m < next_node s')"
    by (rule msg_stepE) blast
  have n: "n < next_node s" using assms(2) by (simp add: expiry_inv_def)
  have "snd t \<noteq> RemoveAlert n" if "t \<in> set new" for t
    using t(2) [OF that] n by auto
  then show ?thesis
    using c t(1) msg_step_has_alert [OF assms(1) n]
    by (intro expiry_inv_extend [OF assms(2), where new = new]) (simp_all add: same_core_def)
qed

lemma sendMessage_expiry_inv:
  "expiry_inv n d s \<Longrightarrow> expiry_inv n d (uncaught (sendMessage message s))"
  by (simp add: expiry_inv_def has_alert_def sendMessage_conn_fields)

lemma has_alert_updateStatus [simp]: "has_alert n (updateStatus st s) = has_alert n s"
  by (simp add: has_alert_def)

lemma attemptReconnect_expiry_inv:
  assumes "expiry_inv n d s"
  shows "expiry_inv n d (attemptReconnect s)"
proof (cases "reconnectAttempts s < maxReconnectAttempts s")
  case True
  show ?thesis
    by (rule expiry_inv_extend [OF assms, where new = "[(clock s + 3000, Reconnect)]"])
      (use True in \<open>simp_all add: attemptReconnect_below has_alert_def\<close>)
next
  case False
  show ?thesis
    by (rule expiry_inv_extend [OF assms, where new = "[]"])
      (use False in \<open>simp_all add: attemptReconnect_exhausted has_alert_def\<close>)
qed

lemma connectWebSocket_expiry_inv:
  assumes "expiry_inv n d s"
  shows "expiry_inv n d (connectWebSocket throws s)"
proof (cases throws)
  case True
  have "expiry_inv n d (s\<lparr>console := console s @ [Error ''Failed to connect WebSocket:'' []]\<rparr>)"
    using assms by (simp add: expiry_inv_def has_alert_def)
  then show ?thesis
    using True by (simp add: connectWebSocket_def attemptReconnect_expiry_inv)
next
  case False
  then show ?thesis
    using assms by (simp add: connectWebSocket_def expiry_inv_def has_alert_def)
qed

lemma has_alert_removeAlert:
  "has_alert n (removeAlert m s) = (has_alert n s \<and> n \<noteq> m)"
  by (cases "alerts_container s") (auto simp: has_alert_def removeAlert_def)

lemma removeAlert_fields [simp]:
  "timers (removeAlert m s) = timers s" "clock (removeAlert m s) = clock s"
  "next_node (removeAlert m s) = next_node s" "ws (removeAlert m s) = ws s"
  by (simp_all add: removeAlert_def)

lemma has_alert_timers [simp]: "has_alert n (s\<lparr>timers := ts\<rparr>) = has_alert n s"
  by (simp add: has_alert_def)

lemma fire_expiry_inv:
  assumes "expiry_inv n d s" and "k < length (timers s)" and "fst (timers s ! k) \<le> clock s"
  shows "expiry_inv n d (run_callback (snd (timers s ! k)) throws
           (s\<lparr>timers := take k (timers s) @ drop (Suc k) (timers s)\<rparr>))"
proof -
  let ?ts = "timers s"
  let ?rest = "take k ?ts @ drop (Suc k) ?ts"
  let ?s1 = "s\<lparr>timers := ?rest\<rparr>"
  note sub = set_remove_nth [OF assms(2)]
  have k_in: "?ts ! k \<in> set ?ts" using assms(2) by simp
  have n: "n < next_node s"
    and due: "\<And>t. t \<in> set ?ts \<Longrightarrow> snd t = RemoveAlert n \<Longrightarrow> fst t = d"
    and pending: "has_alert n s \<Longrightarrow> (d, RemoveAlert n) \<in> set ?ts"
    and gone: "\<not> has_alert n s \<Longrightarrow> d \<le> clock s"
    using assms(1) by (simp_all add: expiry_inv_def)
  have due1: "fst t = d" if "t \<in> set ?rest" "snd t = RemoveAlert n" for t
    using that sub(1) due by blast
  show ?thesis
  proof (cases "snd (?ts ! k) = RemoveAlert n")
    case True
    then have "fst (?ts ! k) = d" using due k_in by simp
    then have "d \<le> clock s" using assms(3) by simp
    moreover have "\<not> has_alert n (removeAlert n ?s1)"
      by (simp add: has_alert_removeAlert)
    ultimately have "expiry_inv n d (removeAlert n ?s1)"
      unfolding expiry_inv_def using n due1 by simp
    then show ?thesis using True by simp
  next
    case False
    then have ne: "?ts ! k \<noteq> (d, RemoveAlert n)" by auto
    have pending1: "(d, RemoveAlert n) \<in> set ?rest" if "has_alert n s"
      using pending [OF that] sub(2) ne by auto
    have inv1: "expiry_inv n d ?s1"
      unfolding expiry_inv_def using n due1 pending1 gone by simp
    show ?thesis
    proof (cases "snd (?ts ! k)")
      case Reconnect
      then show ?thesis using inv1 by (simp add: connectWebSocket_expiry_inv)
    next
      case (RemoveAlert m)
      then have "m \<noteq> n" using False by simp
      then have "has_alert n (removeAlert m ?s1) = has_alert n s"
        by (auto simp: has_alert_removeAlert)
      then have "expiry_inv n d (removeAlert m ?s1)"
        unfolding expiry_inv_def using n due1 pending1 gone by simp
      then show ?thesis using RemoveAlert by simp
    qed
  qed
qed

lemma step_expiry_inv:
  assumes "expiry_inv n d s"
  shows "expiry_inv n d (step e s)"
proof (cases e)
  case WsOpen
  have "expiry_inv n d (updateStatus ''connected''
          (s\<lparr>ws := Some OPEN, console := console s @ [Log ''Connected to agent dashboard'' []],
             isConnected := True, reconnectAttempts := 0\<rparr>))"
    using assms by (simp add: expiry_inv_def has_alert_def)
  then show ?thesis
    using assms WsOpen
    by (simp add: step_def onopen_def requestStatusUpdate_def sendMessage_expiry_inv)
next
  case (WsMessage frame)
  then show ?thesis
    using assms msg_step_expiry_inv [OF onmessage_msg_step] by (simp add: step_def)
next
  case WsClose
  have "expiry_inv n d (updateStatus ''disconnected''
          (s\<lparr>ws := Some CLOSED,
             console := console s @ [Log ''Disconnected from agent dashboard'' []],
             isConnected := False\<rparr>))"
    using assms by (simp add: expiry_inv_def has_alert_def)
  then show ?thesis
    using assms WsClose by (simp add: step_def onclose_def attemptReconnect_expiry_inv)
next
  case WsError
  then show ?thesis
    using assms by (simp add: step_def onerror_def expiry_inv_def has_alert_def)
next
  case (Elapse dt)
  then show ?thesis
    using assms by (auto simp: step_def expiry_inv_def has_alert_def)
next
  case (Fire k throws)
  then show ?thesis
    using assms fire_expiry_inv [OF assms, of k throws] by (simp add: step_def)
next
  case ClickStartMonitoring
  then show ?thesis using assms by (simp add: step_def startMonitoring_def sendMessage_expiry_inv)
next
  case ClickStopMonitoring
  then show ?thesis using assms by (simp add: step_def stopMonitoring_def sendMessage_expiry_inv)
next
  case ClickSimulateThreat
  then show ?thesis using assms by (simp add: step_def simulateThreat_def sendMessage_expiry_inv)
next
  case ClickRequestStatus
  then show ?thesis using assms by (simp add: step_def requestStatusUpdate_def sendMessage_expiry_inv)
qed

lemma run_expiry_inv: "expiry_inv n d s \<Longrightarrow> expiry_inv n d (run es s)"
  by (induction es arbitrary: s) (simp_all add: step_expiry_inv)

lemma showAlert_created:
  assumes "showAlert kind data s = (None, s1)"
  obtains content alerts where
    "formatAlertContent data = Inr content" "alerts_container s = Some alerts"
    "s1 = s\<lparr>next_node := Suc (next_node s),
            alerts_container :=
              Some (\<lparr>alert_node = next_node s, alert_kind = kind,
                     alert_title = getAlertTitle kind, alert_content = content,
                     alert_time = clock s\<rparr> # alerts),
            timers := timers s @ [(clock s + 10000, RemoveAlert (next_node s))]\<rparr>"
  using assms
  by (auto simp: showAlert_def Let_def split: sum.splits option.splits)

lemma showAlert_expiry_inv:
  assumes "nodes_fresh s" and "showAlert kind data s = (None, s1)"
  shows "expiry_inv (next_node s) (clock s + 10000) s1"
proof -
  from assms(2) obtain content alerts where
    s1: "alerts_container s = Some alerts"
    "s1 = s\<lparr>next_node := Suc (next_node s),
            alerts_container :=
              Some (\<lparr>alert_node = next_node s, alert_kind = kind,
                     alert_title = getAlertTitle kind, alert_content = content,
                     alert_time = clock s\<rparr> # alerts),
            timers := timers s @ [(clock s + 10000, RemoveAlert (next_node s))]\<rparr>"
    by (rule showAlert_created)
  have "snd t \<noteq> RemoveAlert (next_node s)" if "t \<in> set (timers s)" for t
    using assms(1) that by (fastforce simp: nodes_fresh_def split: callback.splits)
  then show ?thesis
    by (auto simp: expiry_inv_def has_alert_def s1(2))
qed

lemma fire_removes:
  assumes "k < length (timers s)" and "timers s ! k = (d, RemoveAlert n)" and "d \<le> clock s"
  shows "\<not> has_alert n (step (Fire k throws) s)"
proof -
  have "fst (timers s ! k) \<le> clock s" "snd (timers s ! k) = RemoveAlert n"
    using assms(2,3) by simp_all
  then have "step (Fire k throws) s =
      removeAlert n (s\<lparr>timers := take k (timers s) @ drop (Suc k) (timers s)\<rparr>)"
    using assms(1) by (simp add: step_def)
  then show ?thesis by (simp add: has_alert_removeAlert)
qed

lemma has_toast_remove: "has_toast n (toast_remove m p) = (has_toast n p \<and> n \<noteq> m)"
  by (auto simp: has_toast_def toast_remove_def)

lemma toast_remove_fields [simp]:
  "timeouts (toast_remove m p) = timeouts p" "now (toast_remove m p) = now p"
  "next_toast (toast_remove m p) = next_toast p"
  by (simp_all add: toast_remove_def)

lemma has_toast_fields [simp]:
  "has_toast n (p\<lparr>timeouts := ts\<rparr>) = has_toast n p"
  "has_toast n (p\<lparr>now := t\<rparr>) = has_toast n p"
  by (simp_all add: has_toast_def)

lemma toast_fire_inv:
  assumes "toast_inv n d p" and "k < length (timeouts p)" and "fst (timeouts p ! k) \<le> now p"
  shows "toast_inv n d (toast_remove (snd (timeouts p ! k))
           (p\<lparr>timeouts := take k (timeouts p) @ drop (Suc k) (timeouts p)\<rparr>))"
proof -
  let ?ts = "timeouts p"
  let ?rest = "take k ?ts @ drop (Suc k) ?ts"
  let ?p1 = "p\<lparr>timeouts := ?rest\<rparr>"
  note sub = set_remove_nth [OF assms(2)]
  have k_in: "?ts ! k \<in> set ?ts" using assms(2) by simp
  have n: "n < next_toast p"
    and due: "\<And>t. t \<in> set ?ts \<Longrightarrow> snd t = n \<Longrightarrow> fst t = d"
    and pending: "has_toast n p \<Longrightarrow> (d, n) \<in> set ?ts"
    and gone: "\<not> has_toast n p \<Longrightarrow> d \<le> now p"
    using assms(1) by (simp_all add: toast_inv_def)
  have due1: "fst t = d" if "t \<in> set ?rest" "snd t = n" for t
    using that sub(1) due by blast
  show ?thesis
  proof (cases "snd (?ts ! k) = n")
    case True
    then have "fst (?ts ! k) = d" using due k_in by simp
    then have "d \<le> now p" using assms(3) by simp
    moreover have "\<not> has_toast n (toast_remove n ?p1)"
      by (simp add: has_toast_remove)
    ultimately have "toast_inv n d (toast_remove n ?p1)"
      unfolding toast_inv_def using n due1 by simp
    then show ?thesis using True by simp
  next
    case False
    then have ne: "?ts ! k \<noteq> (d, n)" by auto
    have pending1: "(d, n) \<in> set ?rest" if "has_toast n p"
      using pending [OF that] sub(2) ne by auto
    have "has_toast n (toast_remove (snd (?ts ! k)) ?p1) = has_toast n p"
      using False by (auto simp: has_toast_remove)
    then show ?thesis
      unfolding toast_inv_def using n due1 pending1 gone by simp
  qed
qed

lemma toast_step_inv:
  assumes "toast_inv n d p" and "e \<noteq> ToastClose n"
  shows "toast_inv n d (toast_step e p)"
proof (cases e)
  case (ShowToast message kind)
  have "has_toast n (showToast message kind p) = has_toast n p"
    using assms(1) by (auto simp: has_toast_def showToast_def toast_inv_def)
  then show ?thesis
    using assms(1) ShowToast
    by (auto simp: toast_step_def toast_inv_def showToast_def)
next
  case (ToastElapse dt)
  then show ?thesis
    using assms(1) by (auto simp: toast_step_def toast_inv_def)
next
  case (ToastFire k)
  then show ?thesis
    using assms(1) toast_fire_inv [OF assms(1), of k] by (simp add: toast_step_def)
next
  case (ToastClose m)
  then have "m \<noteq> n" using assms(2) by simp
  then have "has_toast n (toast_remove m p) = has_toast n p"
    by (auto simp: has_toast_remove)
  then show ?thesis
    using assms(1) ToastClose by (simp add: toast_step_def toast_inv_def)
qed

lemma toast_run_inv:
  "toast_inv n d p \<Longrightarrow> ToastClose n \<notin> set es \<Longrightarrow> toast_inv n d (toast_run es p)"
proof (induction es arbitrary: p)
  case Nil
  then show ?case by simp
next
  case (Cons e es)
  then have "toast_inv n d (toast_step e p)" "ToastClose n \<notin> set es"
    by (auto intro: toast_step_inv)
  then show ?case using Cons.IH by simp
qed

lemma showToast_inv:
  assumes "toasts_fresh p"
  shows "toast_inv (next_toast p) (now p + 5000) (showToast message kind p)"
proof -
  have "snd t \<noteq> next_toast p" if "t \<in> set (timeouts p)" for t
    using assms that by (fastforce simp: toasts_fresh_def)
  then show ?thesis
    by (auto simp: toast_inv_def has_toast_def showToast_def)
qed

lemma toast_fire_removes:
  assumes "k < length (timeouts p)" and "timeouts p ! k = (d, n)" and "d \<le> now p"
  shows "\<not> has_toast n (toast_step (ToastFire k) p)"
proof -
  have "fst (timeouts p ! k) \<le> now p" "snd (timeouts p ! k) = n"
    using assms(2,3) by simp_all
  then have "toast_step (ToastFire k) p =
      toast_remove n (p\<lparr>timeouts := take k (timeouts p) @ drop (Suc k) (timeouts p)\<rparr>)"
    using assms(1) by (simp add: toast_step_def)
  then show ?thesis by (simp add: has_toast_remove)
qed

lemma nodes_freshI:
  assumes "\<And>t m. t \<in> set (timers s) \<Longrightarrow> snd t = RemoveAlert m \<Longrightarrow> m < next_node s"
    and "\<And>alerts a. alerts_container s = Some alerts \<Longrightarrow> a \<in> set alerts \<Longrightarrow>
           alert_node a < next_node s"
  shows "nodes_fresh s"
  using assms by (auto simp: nodes_fresh_def split: callback.splits option.splits)

lemma nodes_freshD:
  assumes "nodes_fresh s"
  shows "t \<in> set (timers s) \<Longrightarrow> snd t = RemoveAlert m \<Longrightarrow> m < next_node s"
    and "alerts_container s = Some alerts \<Longrightarrow> a \<in> set alerts \<Longrightarrow> alert_node a < next_node s"
  using assms by (auto simp: nodes_fresh_def split: callback.splits option.splits)

lemma nodes_fresh_same:
  assumes "nodes_fresh s" and "next_node s' = next_node s"
    and "alerts_container s' = alerts_container s"
    and "timers s' = timers s \<or> timers s' = timers s @ [(d, Reconnect)]"
  shows "nodes_fresh s'"
proof (rule nodes_freshI)
  fix t m assume "t \<in> set (timers s')" "snd t = RemoveAlert m"
  then have "t \<in> set (timers s)" using assms(4) by auto
  then show "m < next_node s'"
    using nodes_freshD(1) [OF assms(1)] \<open>snd t = RemoveAlert m\<close> assms(2) by simp
next
  fix alerts a assume "alerts_container s' = Some alerts" "a \<in> set alerts"
  then show "alert_node a < next_node s'"
    using nodes_freshD(2) [OF assms(1)] assms(2,3) by simp
qed

lemma msg_step_nodes_fresh:
  assumes "msg_step s s'" and "nodes_fresh s"
  shows "nodes_fresh s'"
proof -
  from assms(1) obtain new added where c: "same_core s s'"
    and t: "timers s' = timers s @ new"
      "\<And>t. t \<in> set new \<Longrightarrow> fst t = clock s + 10000
               \<and> (\<exists>m. snd t = RemoveAlert m \<and> next_node s \<le> m \<and> m < next_node s')"
    and a: "alerts_container s' = map_option ((@) added) (alerts_container s)"
      "\<And>a. a \<in> set added \<Longrightarrow> next_node s \<le> alert_node a \<and> alert_node a < next_node s'"
    by (rule msg_stepE) blast
  have le: "next_node s \<le> next_node s'" using c by (simp add: same_core_def)
  show ?thesis
  proof (rule nodes_freshI)
    fix t m assume tm: "t \<in> set (timers s')" "snd t = RemoveAlert m"
    then consider "t \<in> set (timers s)" | "t \<in> set new" using t(1) by auto
    then show "m < next_node s'"
    proof cases
      case 1
      then have "m < next_node s" using nodes_freshD(1) [OF assms(2)] tm(2) by simp
      then show ?thesis using le by simp
    next
      case 2
      then show ?thesis using t(2) [OF 2] tm(2) by auto
    qed
  next
    fix alerts x assume al: "alerts_container s' = Some alerts" "x \<in> set alerts"
    then obtain old where old: "alerts_container s = Some old" "alerts = added @ old"
      using a(1) by (cases "alerts_container s") auto
    then consider "x \<in> set added" | "x \<in> set old" using al(2) by auto
    then show "alert_node x < next_node s'"
    proof cases
      case 1
      then show ?thesis using a(2) by simp
    next
      case 2
      then have "alert_node x < next_node s" using nodes_freshD(2) [OF assms(2) old(1)] by simp
      then show ?thesis using le by simp
    qed
  qed
qed

lemma attemptReconnect_nodes_fresh:
  assumes "nodes_fresh s"
  shows "nodes_fresh (attemptReconnect s)"
proof (cases "reconnectAttempts s < maxReconnectAttempts s")
  case True
  show ?thesis
    by (rule nodes_fresh_same [OF assms, where d = "clock s + 3000"])
      (use True in \<open>simp_all add: attemptReconnect_below\<close>)
next
  case False
  show ?thesis
    by (rule nodes_fresh_same [OF assms, where d = 0])
      (use False in \<open>simp_all add: attemptReconnect_exhausted\<close>)
qed

lemma connectWebSocket_nodes_fresh:
  assumes "nodes_fresh s"
  shows "nodes_fresh (connectWebSocket throws s)"
proof (cases throws)
  case True
  have "nodes_fresh (s\<lparr>console := console s @ [Error ''Failed to connect WebSocket:'' []]\<rparr>)"
    by (rule nodes_fresh_same [OF assms, where d = 0]) simp_all
  then show ?thesis
    using True by (simp add: connectWebSocket_def attemptReconnect_nodes_fresh)
next
  case False
  have "nodes_fresh (s\<lparr>ws := Some CONNECTING\<rparr>)"
    by (rule nodes_fresh_same [OF assms, where d = 0]) simp_all
  then show ?thesis using False by (simp add: connectWebSocket_def)
qed

lemma sendMessage_nodes_fresh:
  assumes "nodes_fresh s"
  shows "nodes_fresh (uncaught (sendMessage message s))"
  by (rule nodes_fresh_same [OF assms, where d = 0]) (simp_all add: sendMessage_conn_fields)

lemma fire_nodes_fresh:
  assumes "nodes_fresh s" and "k < length (timers s)"
  shows "nodes_fresh (run_callback (snd (timers s ! k)) throws
           (s\<lparr>timers := take k (timers s) @ drop (Suc k) (timers s)\<rparr>))"
proof -
  let ?s1 = "s\<lparr>timers := take k (timers s) @ drop (Suc k) (timers s)\<rparr>"
  note sub = set_remove_nth(1) [OF assms(2)]
  have s1: "nodes_fresh ?s1"
  proof (rule nodes_freshI)
    fix t m assume "t \<in> set (timers ?s1)" "snd t = RemoveAlert m"
    then show "m < next_node ?s1"
      using sub nodes_freshD(1) [OF assms(1), of t m] by auto
  next
    fix alerts a assume "alerts_container ?s1 = Some alerts" "a \<in> set alerts"
    then show "alert_node a < next_node ?s1"
      using nodes_freshD(2) [OF assms(1), of alerts a] by simp
  qed
  show ?thesis
  proof (cases "snd (timers s ! k)")
    case Reconnect
    then show ?thesis using s1 by (simp add: connectWebSocket_nodes_fresh)
  next
    case (RemoveAlert n)
    have "nodes_fresh (removeAlert n ?s1)"
    proof (rule nodes_freshI)
      fix t m assume "t \<in> set (timers (removeAlert n ?s1))" "snd t = RemoveAlert m"
      then show "m < next_node (removeAlert n ?s1)"
        using nodes_freshD(1) [OF s1, of t m] by simp
    next
      fix alerts a assume "alerts_container (removeAlert n ?s1) = Some alerts" "a \<in> set alerts"
      then obtain old where "alerts_container ?s1 = Some old" "a \<in> set old"
        by (cases "alerts_container s") (auto simp: removeAlert_def)
      then show "alert_node a < next_node (removeAlert n ?s1)"
        using nodes_freshD(2) [OF s1, of old a] by simp
    qed
    then show ?thesis using RemoveAlert by simp
  qed
qed

lemma step_nodes_fresh:
  assumes "nodes_fresh s"
  shows "nodes_fresh (step e s)"
proof (cases e)
  case WsOpen
  have "nodes_fresh (updateStatus ''connected''
          (s\<lparr>ws := Some OPEN, console := console s @ [Log ''Connected to agent dashboard'' []],
             isConnected := True, reconnectAttempts := 0\<rparr>))"
    by (rule nodes_fresh_same [OF assms, where d = 0]) simp_all
  then show ?thesis
    using assms WsOpen
    by (simp add: step_def onopen_def requestStatusUpdate_def sendMessage_nodes_fresh)
next
  case (WsMessage frame)
  then show ?thesis
    using assms msg_step_nodes_fresh [OF onmessage_msg_step] by (simp add: step_def)
next
  case WsClose
  have "nodes_fresh (updateStatus ''disconnected''
          (s\<lparr>ws := Some CLOSED,
             console := console s @ [Log ''Disconnected from agent dashboard'' []],
             isConnected := False\<rparr>))"
    by (rule nodes_fresh_same [OF assms, where d = 0]) simp_all
  then show ?thesis
    using assms WsClose by (simp add: step_def onclose_def attemptReconnect_nodes_fresh)
next
  case WsError
  have "nodes_fresh (onerror s)"
    by (rule nodes_fresh_same [OF assms, where d = 0]) (simp_all add: onerror_def)
  then show ?thesis using assms WsError by (simp add: step_def)
next
  case (Elapse dt)
  have "nodes_fresh (s\<lparr>clock := clock s + dt\<rparr>)"
    by (rule nodes_fresh_same [OF assms, where d = 0]) simp_all
  then show ?thesis using Elapse by (simp add: step_def)
next
  case (Fire k throws)
  then show ?thesis
    using assms fire_nodes_fresh [OF assms, of k throws] by (simp add: step_def)
next
  case ClickStartMonitoring
  then show ?thesis using assms by (simp add: step_def startMonitoring_def sendMessage_nodes_fresh)
next
  case ClickStopMonitoring
  then show ?thesis using assms by (simp add: step_def stopMonitoring_def sendMessage_nodes_fresh)
next
  case ClickSimulateThreat
  then show ?thesis using assms by (simp add: step_def simulateThreat_def sendMessage_nodes_fresh)
next
  case ClickRequestStatus
  then show ?thesis using assms by (simp add: step_def requestStatusUpdate_def sendMessage_nodes_fresh)
qed

lemma run_nodes_fresh: "nodes_fresh s \<Longrightarrow> nodes_fresh (run es s)"
  by (induction es arbitrary: s) (simp_all add: step_nodes_fresh)

lemma AgentDashboard_nodes_fresh:
  assumes "nodes_fresh page"
  shows "nodes_fresh (AgentDashboard throws page)"
proof -
  have "nodes_fresh (updateStatus ''initializing''
          (page\<lparr>ws := None, isConnected := False, reconnectAttempts := 0,
                maxReconnectAttempts := 5\<rparr>))"
    by (rule nodes_fresh_same [OF assms, where d = 0]) simp_all
  then show ?thesis
    unfolding AgentDashboard_def by (rule connectWebSocket_nodes_fresh)
qed

text \<open>
  C9. An alert that \<^verbatim>\<open>showAlert\<close> creates, in a state whose nodes are fresh, is put
  before all the alerts of the container, whatever their kinds, and gets its own timeout,
  due 10000 ms after the creation. After any sequence of events, the alert is still in the
  container while less than 10000 ms have passed; while it is in the container its
  timeout is pending, and when that timeout runs, which it can once it is due, the alert
  is gone. The same holds for a toast of the console, with 5000 ms, in any sequence of
  events in which the user does not close that toast. The states a dashboard reaches
  from a page with fresh nodes have fresh nodes.
\<close>

theorem alerts_expire:
  assumes "nodes_fresh s" and "showAlert kind data s = (None, s1)"
    and "toasts_fresh p" and "ToastClose (next_toast p) \<notin> set tes"
  shows "(\<exists>a alerts. alert_node a = next_node s \<and> alert_kind a = kind
            \<and> alerts_container s = Some alerts \<and> alerts_container s1 = Some (a # alerts))
    \<and> timers s1 = timers s @ [(clock s + 10000, RemoveAlert (next_node s))]
    \<and> (clock (run es s1) < clock s + 10000 \<longrightarrow> has_alert (next_node s) (run es s1))
    \<and> (has_alert (next_node s) (run es s1) \<longrightarrow>
          (clock s + 10000, RemoveAlert (next_node s)) \<in> set (timers (run es s1)))
    \<and> (k < length (timers (run es s1))
          \<and> timers (run es s1) ! k = (clock s + 10000, RemoveAlert (next_node s))
          \<and> clock s + 10000 \<le> clock (run es s1) \<longrightarrow>
        \<not> has_alert (next_node s) (step (Fire k throws) (run es s1)))
    \<and> body (showToast message tkind p) =
          body p @ [\<lparr>toast_node = next_toast p, toast_type = tkind, toast_message = message\<rparr>]
    \<and> timeouts (showToast message tkind p) = timeouts p @ [(now p + 5000, next_toast p)]
    \<and> (now (toast_run tes (showToast message tkind p)) < now p + 5000 \<longrightarrow>
          has_toast (next_toast p) (toast_run tes (showToast message tkind p)))
    \<and> (has_toast (next_toast p) (toast_run tes (showToast message tkind p)) \<longrightarrow>
          (now p + 5000, next_toast p) \<in> set (timeouts (toast_run tes (showToast message tkind p))))
    \<and> (j < length (timeouts (toast_run tes (showToast message tkind p)))
          \<and> timeouts (toast_run tes (showToast message tkind p)) ! j = (now p + 5000, next_toast p)
          \<and> now p + 5000 \<le> now (toast_run tes (showToast message tkind p)) \<longrightarrow>
        \<not> has_toast (next_toast p)
            (toast_step (ToastFire j) (toast_run tes (showToast message tkind p))))
    \<and> (nodes_fresh page \<longrightarrow> nodes_fresh (run es0 (AgentDashboard throws0 page)))"
proof -
  from assms(2) obtain content alerts where
    s1: "alerts_container s = Some alerts"
    "s1 = s\<lparr>next_node := Suc (next_node s),
            alerts_container :=
              Some (\<lparr>alert_node = next_node s, alert_kind = kind,
                     alert_title = getAlertTitle kind, alert_content = content,
                     alert_time = clock s\<rparr> # alerts),
            timers := timers s @ [(clock s + 10000, RemoveAlert (next_node s))]\<rparr>"
    by (rule showAlert_created)
  have a1: "\<exists>a alerts. alert_node a = next_node s \<and> alert_kind a = kind
            \<and> alerts_container s = Some alerts \<and> alerts_container s1 = Some (a # alerts)"
    using s1 by simp
  have a2: "timers s1 = timers s @ [(clock s + 10000, RemoveAlert (next_node s))]"
    using s1(2) by simp
  have inv: "expiry_inv (next_node s) (clock s + 10000) (run es s1)"
    using assms(1,2) by (intro run_expiry_inv showAlert_expiry_inv)
  have a3: "clock (run es s1) < clock s + 10000 \<longrightarrow> has_alert (next_node s) (run es s1)"
    and a4: "has_alert (next_node s) (run es s1) \<longrightarrow>
          (clock s + 10000, RemoveAlert (next_node s)) \<in> set (timers (run es s1))"
    using inv by (auto simp: expiry_inv_def)
  have a5: "k < length (timers (run es s1))
          \<and> timers (run es s1) ! k = (clock s + 10000, RemoveAlert (next_node s))
          \<and> clock s + 10000 \<le> clock (run es s1) \<longrightarrow>
        \<not> has_alert (next_node s) (step (Fire k throws) (run es s1))"
    using fire_removes by blast
  let ?p1 = "showToast message tkind p"
  have t1: "body ?p1 =
      body p @ [\<lparr>toast_node = next_toast p, toast_type = tkind, toast_message = message\<rparr>]"
    and t2: "timeouts ?p1 = timeouts p @ [(now p + 5000, next_toast p)]"
    by (simp_all add: showToast_def)
  have tinv: "toast_inv (next_toast p) (now p + 5000) (toast_run tes ?p1)"
    using assms(3,4) by (intro toast_run_inv showToast_inv)
  have t3: "now (toast_run tes ?p1) < now p + 5000 \<longrightarrow> has_toast (next_toast p) (toast_run tes ?p1)"
    and t4: "has_toast (next_toast p) (toast_run tes ?p1) \<longrightarrow>
          (now p + 5000, next_toast p) \<in> set (timeouts (toast_run tes ?p1))"
    using tinv by (auto simp: toast_inv_def)
  have t5: "j < length (timeouts (toast_run tes ?p1))
          \<and> timeouts (toast_run tes ?p1) ! j = (now p + 5000, next_toast p)
          \<and> now p + 5000 \<le> now (toast_run tes ?p1) \<longrightarrow>
        \<not> has_toast (next_toast p) (toast_step (ToastFire j) (toast_run tes ?p1))"
    using toast_fire_removes by blast
  have reach: "nodes_fresh page \<longrightarrow> nodes_fresh (run es0 (AgentDashboard throws0 page))"
    by (simp add: run_nodes_fresh AgentDashboard_nodes_fresh)
  show ?thesis
    by (intro conjI a1 a2 a3 a4 a5 t1 t2 t3 t4 t5 reach)
qed

lemma format_threat_data: "formatAlertContent threat_data = Inr threat_content"
  by (simp add: formatAlertContent_def threat_data_def toUpperCase_def threat_content_def)

lemma one_alert_eq:
  "showAlert ''threat'' threat_data page0 = (None, one_alert)"
  "one_alert =
     page0\<lparr>next_node := 1,
       alerts_container :=
         Some [\<lparr>alert_node = 0, alert_kind = ''threat'', alert_title = ''THREAT DETECTED'',
                alert_content = threat_content, alert_time = 0\<rparr>],
       timers := [(10000, RemoveAlert 0)]\<rparr>"
  by (simp_all add: one_alert_def showAlert_def Let_def format_threat_data getAlertTitle_def
      page0_def)

lemma two_alerts_eq:
  "showAlert ''threat'' threat_data (step (Elapse 500) one_alert) = (None, two_alerts)"
  "two_alerts =
     page0\<lparr>next_node := 2,
       alerts_container :=
         Some [\<lparr>alert_node = 1, alert_kind = ''threat'', alert_title = ''THREAT DETECTED'',
                alert_content = threat_content, alert_time = 500\<rparr>,
               \<lparr>alert_node = 0, alert_kind = ''threat'', alert_title = ''THREAT DETECTED'',
                alert_content = threat_content, alert_time = 0\<rparr>],
       clock := 500,
       timers := [(10000, RemoveAlert 0), (10500, RemoveAlert 1)]\<rparr>"
  by (simp_all add: two_alerts_def one_alert_eq(2) step_def showAlert_def Let_def
      format_threat_data getAlertTitle_def page0_def)

theorem alerts_expire_witness:
  "nodes_fresh (step (Elapse 500) one_alert)
   \<and> showAlert ''threat'' threat_data (step (Elapse 500) one_alert) = (None, two_alerts)
   \<and> toasts_fresh console_page0 \<and> ToastClose (next_toast console_page0) \<notin> set [ToastElapse 4999]
   \<and> map_option (map alert_kind) (alerts_container two_alerts) = Some [''threat'', ''threat'']
   \<and> timers two_alerts = [(10000, RemoveAlert 0), (10500, RemoveAlert 1)]
   \<and> has_alert 1 (run [Elapse 9500, Fire 0 False, Elapse 499] two_alerts)
   \<and> \<not> has_alert 0 (run [Elapse 9500, Fire 0 False, Elapse 499] two_alerts)
   \<and> \<not> has_alert 1 (step (Fire 0 False) (run [Elapse 9500, Fire 0 False, Elapse 500] two_alerts))
   \<and> has_toast 0 (toast_run [ToastElapse 4999] one_toast)
   \<and> \<not> has_toast 0 (toast_step (ToastFire 0) (toast_run [ToastElapse 5000] one_toast))
   \<and> nodes_fresh page0
   \<and> nodes_fresh (run [WsOpen, WsMessage (Some threat_message)] (AgentDashboard False page0))"
proof -
  let ?s = "step (Elapse 500) one_alert"
  have h1: "nodes_fresh ?s"
    by (simp add: nodes_fresh_def one_alert_eq(2) step_def page0_def)
  note h2 = two_alerts_eq(1)
  have h3: "toasts_fresh console_page0"
    by (simp add: toasts_fresh_def console_page0_def)
  have h4: "ToastClose (next_toast console_page0) \<notin> set [ToastElapse 4999]"
    and h4': "ToastClose (next_toast console_page0) \<notin> set [ToastElapse 5000]"
    by simp_all
  have v: "next_node ?s = 1" "clock ?s = 500" "next_toast console_page0 = 0" "now console_page0 = 0"
    by (simp_all add: one_alert_eq(2) step_def page0_def console_page0_def)
  let ?es = "[Elapse 9500, Fire 0 False, Elapse 499]"
  let ?es' = "[Elapse 9500, Fire 0 False, Elapse 500]"
  have r: "run ?es two_alerts =
      two_alerts\<lparr>clock := 10499, timers := [(10500, RemoveAlert 1)],
        alerts_container :=
         Some [\<lparr>alert_node = 1, alert_kind = ''threat'', alert_title = ''THREAT DETECTED'',
                alert_content = threat_content, alert_time = 500\<rparr>]\<rparr>"
    and r': "run ?es' two_alerts =
      two_alerts\<lparr>clock := 10500, timers := [(10500, RemoveAlert 1)],
        alerts_container :=
         Some [\<lparr>alert_node = 1, alert_kind = ''threat'', alert_title = ''THREAT DETECTED'',
                alert_content = threat_content, alert_time = 500\<rparr>]\<rparr>"
    by (simp_all add: two_alerts_eq(2) step_def removeAlert_def page0_def)
  have t: "toast_run [ToastElapse 4999] one_toast = one_toast\<lparr>now := 4999\<rparr>"
    "toast_run [ToastElapse 5000] one_toast = one_toast\<lparr>now := 5000\<rparr>"
    "timeouts one_toast = [(5000, 0)]" "now one_toast = 0"
    by (simp_all add: toast_step_def one_toast_def showToast_def console_page0_def)
  note w1 = alerts_expire [OF h1 h2 h3 h4, of ?es 0 False "''Saved''" "''info''" 0 page0
      "[WsOpen, WsMessage (Some threat_message)]" False]
  note w2 = alerts_expire [OF h1 h2 h3 h4', of ?es' 0 False "''Saved''" "''info''" 0 page0
      "[WsOpen, WsMessage (Some threat_message)]" False]
  have c7: "nodes_fresh page0"
    by (simp add: nodes_fresh_def page0_def)
  have c8: "nodes_fresh (run [WsOpen, WsMessage (Some threat_message)] (AgentDashboard False page0))"
    using w1 [THEN conjunct2, THEN conjunct2, THEN conjunct2, THEN conjunct2, THEN conjunct2,
        THEN conjunct2, THEN conjunct2, THEN conjunct2, THEN conjunct2, THEN conjunct2] c7
    by (rule mp)
  have c1: "has_alert 1 (run ?es two_alerts)"
    using w1 [THEN conjunct2, THEN conjunct2, THEN conjunct1]
    unfolding r v by simp
  have c2: "\<not> has_alert 1 (step (Fire 0 False) (run ?es' two_alerts))"
    using w2 [THEN conjunct2, THEN conjunct2, THEN conjunct2, THEN conjunct2, THEN conjunct1]
    unfolding r' v by simp
  have c3: "has_toast 0 (toast_run [ToastElapse 4999] one_toast)"
    using w1 [THEN conjunct2, THEN conjunct2, THEN conjunct2, THEN conjunct2, THEN conjunct2,
        THEN conjunct2, THEN conjunct2, THEN conjunct1]
    unfolding one_toast_def [symmetric] t v by (simp add: t)
  have c4: "\<not> has_toast 0 (toast_step (ToastFire 0) (toast_run [ToastElapse 5000] one_toast))"
    using w2 [THEN conjunct2, THEN conjunct2, THEN conjunct2, THEN conjunct2, THEN conjunct2,
        THEN conjunct2, THEN conjunct2, THEN conjunct2, THEN conjunct2, THEN conjunct1]
    unfolding one_toast_def [symmetric] t v by (simp add: t)
  have c5: "\<not> has_alert 0 (run ?es two_alerts)"
    unfolding r by (simp add: has_alert_def)
  have c6: "map_option (map alert_kind) (alerts_container two_alerts) = Some [''threat'', ''threat'']"
    "timers two_alerts = [(10000, RemoveAlert 0), (10500, RemoveAlert 1)]"
    by (simp_all add: two_alerts_eq(2))
  show ?thesis
    by (intro conjI h1 h2 h3 h4 c1 c2 c3 c4 c5 c6 c7 c8)
qed

subsection \<open>Cancellation\<close>

lemma step_timers_append:
  assumes "\<not> is_fire e"
  shows "\<exists>new. timers (step e s) = timers s @ new"
proof (cases e)
  case (WsMessage frame)
  obtain new where "timers (uncaught (onmessage frame s)) = timers s @ new"
    using onmessage_msg_step [of s frame] by (rule msg_stepE) blast
  then show ?thesis using WsMessage by (auto simp: step_def)
next
  case (Fire k throws)
  then show ?thesis using assms by (simp add: is_fire_def)
qed (auto simp: step_def onopen_def onclose_def onerror_def attemptReconnect_conn
      startMonitoring_def stopMonitoring_def simulateThreat_def requestStatusUpdate_def
      sendMessage_conn_fields)

lemma fire_timers:
  "\<exists>new. timers (step (Fire k throws) s) =
     (if k < length (timers s) \<and> fst (timers s ! k) \<le> clock s
      then take k (timers s) @ drop (Suc k) (timers s) else timers s) @ new"
proof (cases "k < length (timers s) \<and> fst (timers s ! k) \<le> clock s")
  case False
  then show ?thesis by (auto simp: step_def)
next
  case True
  let ?s1 = "s\<lparr>timers := take k (timers s) @ drop (Suc k) (timers s)\<rparr>"
  have "\<exists>new. timers (run_callback cb throws ?s1) = timers ?s1 @ new" for cb
    by (cases cb) (auto simp: connectWebSocket_def attemptReconnect_conn)
  then show ?thesis using True by (simp add: step_def)
qed

lemma toast_timeouts:
  "\<exists>new. timeouts (toast_step te p) =
     (case te of
        ToastFire j \<Rightarrow>
          if j < length (timeouts p) \<and> fst (timeouts p ! j) \<le> now p
          then take j (timeouts p) @ drop (Suc j) (timeouts p) else timeouts p
      | _ \<Rightarrow> timeouts p) @ new"
  by (cases te) (auto simp: toast_step_def showToast_def)

lemma stop_cancels:
  assumes "statsInterval u = Some h" and "h \<noteq> 0"
  shows "intervals (stop u) = filter (\<lambda>(h', period). h' \<noteq> h) (intervals u)"
    and "interval_tick h (stop u) = stop u"
  using assms by (auto simp: stop_def interval_tick_def)

lemma stop_after_start:
  "next_handle u \<noteq> 0 \<Longrightarrow>
   intervals (stop (startRealTimeUpdates u)) =
     filter (\<lambda>(h', period). h' \<noteq> next_handle u) (intervals u)"
  by (simp add: stop_def startRealTimeUpdates_def updateStats_def)

lemma step_keeps_timers:
  "(\<not> is_fire e \<longrightarrow> (\<exists>new. timers (step e s) = timers s @ new))
   \<and> (\<exists>new. timers (step (Fire k throws) s) =
         (if k < length (timers s) \<and> fst (timers s ! k) \<le> clock s
          then take k (timers s) @ drop (Suc k) (timers s) else timers s) @ new)
   \<and> (\<exists>new. timeouts (toast_step te p) =
         (case te of
            ToastFire j \<Rightarrow>
              if j < length (timeouts p) \<and> fst (timeouts p ! j) \<le> now p
              then take j (timeouts p) @ drop (Suc j) (timeouts p) else timeouts p
          | _ \<Rightarrow> timeouts p) @ new)
   \<and> (statsInterval u = Some h \<and> h \<noteq> 0 \<longrightarrow>
         intervals (stop u) = filter (\<lambda>(h', period). h' \<noteq> h) (intervals u)
       \<and> interval_tick h (stop u) = stop u)
   \<and> (next_handle u \<noteq> 0 \<longrightarrow>
         intervals (stop (startRealTimeUpdates u)) =
           filter (\<lambda>(h', period). h' \<noteq> next_handle u) (intervals u))"
  using step_timers_append [of e s] fire_timers [of k throws s] toast_timeouts [of te p]
    stop_cancels [of u h] stop_after_start [of u]
  by blast





subsection \<open>The attempt counter\<close>

lemma sendMessage_more_fields:
  "maxReconnectAttempts (uncaught (sendMessage message s)) = maxReconnectAttempts s"
  using sendMessage_frame [of message s] by auto

lemma n_reconnect_fields [simp]:
  "n_reconnect (updateStatus st s) = n_reconnect s"
  "n_reconnect (s\<lparr>ws := w\<rparr>) = n_reconnect s"
  "n_reconnect (s\<lparr>console := c\<rparr>) = n_reconnect s"
  "n_reconnect (s\<lparr>isConnected := b\<rparr>) = n_reconnect s"
  "n_reconnect (s\<lparr>reconnectAttempts := a\<rparr>) = n_reconnect s"
  "n_reconnect (s\<lparr>clock := t\<rparr>) = n_reconnect s"
  "n_reconnect (removeAlert m s) = n_reconnect s"
  "n_reconnect (uncaught (sendMessage message s)) = n_reconnect s"
  by (simp_all add: n_reconnect_def sendMessage_conn_fields)

lemma attemptReconnect_balance:
  "reconnectAttempts (attemptReconnect s) + n_reconnect s =
   reconnectAttempts s + n_reconnect (attemptReconnect s)"
  "maxReconnectAttempts (attemptReconnect s) = maxReconnectAttempts s"
  "reconnectAttempts s \<le> reconnectAttempts (attemptReconnect s)"
  by (simp_all add: attemptReconnect_def n_reconnect_def)

lemma connectWebSocket_balance:
  "reconnectAttempts (connectWebSocket throws s) + n_reconnect s =
   reconnectAttempts s + n_reconnect (connectWebSocket throws s)"
  "maxReconnectAttempts (connectWebSocket throws s) = maxReconnectAttempts s"
  "reconnectAttempts s \<le> reconnectAttempts (connectWebSocket throws s)"
  using attemptReconnect_balance
    [of "s\<lparr>console := console s @ [Error ''Failed to connect WebSocket:'' []]\<rparr>"]
  by (simp_all add: connectWebSocket_def)

lemma step_balance:
  assumes "\<not> opens e s"
  shows "reconnectAttempts (step e s) + n_reconnect s =
         reconnectAttempts s + n_reconnect (step e s) + (if fires_reconnect e s then 1 else 0)
       \<and> reconnectAttempts s \<le> reconnectAttempts (step e s)"
proof (cases e)
  case WsOpen
  then show ?thesis using assms by (simp add: opens_def step_def fires_reconnect_def)
next
  case (WsMessage frame)
  have "same_core s (uncaught (onmessage frame s))"
    using onmessage_msg_step [where s = s and frame = frame] by (simp add: msg_step_def same_core_def)
  then show ?thesis
    using WsMessage msg_step_n_reconnect [OF onmessage_msg_step [where s = s and frame = frame]]
    by (simp add: step_def fires_reconnect_def same_core_def)
next
  case WsClose
  then show ?thesis
    using attemptReconnect_balance(1,3) [of "updateStatus ''disconnected''
          (s\<lparr>ws := Some CLOSED,
             console := console s @ [Log ''Disconnected from agent dashboard'' []],
             isConnected := False\<rparr>)"]
    by (simp add: step_def onclose_def fires_reconnect_def)
next
  case WsError
  then show ?thesis by (simp add: step_def onerror_def fires_reconnect_def)
next
  case (Elapse dt)
  then show ?thesis by (simp add: step_def fires_reconnect_def)
next
  case (Fire k throws)
  show ?thesis
  proof (cases "k < length (timers s) \<and> fst (timers s ! k) \<le> clock s")
    case False
    then show ?thesis using Fire by (auto simp: step_def fires_reconnect_def)
  next
    case True
    let ?s1 = "s\<lparr>timers := take k (timers s) @ drop (Suc k) (timers s)\<rparr>"
    have n1: "n_reconnect ?s1 =
        n_reconnect s - (if snd (timers s ! k) = Reconnect then 1 else 0)"
      using True by (simp add: n_reconnect_def filter_remove_nth del: filter_append)
    show ?thesis
    proof (cases "snd (timers s ! k)")
      case Reconnect
      have "timers s ! k \<in> set (timers s)" using True by simp
      then have "n_reconnect s \<noteq> 0"
        using Reconnect by (auto simp: n_reconnect_def filter_empty_conv)
      then have "n_reconnect ?s1 + 1 = n_reconnect s" using n1 Reconnect by simp
      then show ?thesis
        using True Fire Reconnect connectWebSocket_balance(1,3) [where throws = throws and s = ?s1]
        by (simp add: step_def fires_reconnect_def)
    next
      case (RemoveAlert m)
      then show ?thesis
        using True Fire n1 by (simp add: step_def fires_reconnect_def removeAlert_def n_reconnect_def)
    qed
  qed
next
  case ClickStartMonitoring
  then show ?thesis
    by (simp add: step_def startMonitoring_def sendMessage_conn_fields fires_reconnect_def)
next
  case ClickStopMonitoring
  then show ?thesis
    by (simp add: step_def stopMonitoring_def sendMessage_conn_fields fires_reconnect_def)
next
  case ClickSimulateThreat
  then show ?thesis
    by (simp add: step_def simulateThreat_def sendMessage_conn_fields fires_reconnect_def)
next
  case ClickRequestStatus
  then show ?thesis
    by (simp add: step_def requestStatusUpdate_def sendMessage_conn_fields fires_reconnect_def)
qed

lemma step_opens:
  assumes "opens e s"
  shows "reconnectAttempts (step e s) = 0"
  using assms onopen_resets [of "s\<lparr>ws := Some OPEN\<rparr>"] by (simp add: opens_def step_def)

lemma step_attempts:
  "reconnectAttempts (step e s) =
     (if opens e s then 0 else reconnectAttempts s + schedules_reconnect e s)"
proof (cases "opens e s")
  case True
  then show ?thesis by (simp add: step_opens)
next
  case False
  from step_balance [OF False] show ?thesis
    using False by (auto simp: schedules_reconnect_def)
qed

lemma run_attempts_since_open:
  "reconnectAttempts (run es s) = attempts_since_open (reconnectAttempts s) es s"
  by (induction es arbitrary: s) (simp_all add: step_attempts)

lemma run_retries:
  assumes "WsOpen \<notin> set es" and "reconnectAttempts s = r + n_reconnect s"
  shows "reconnectAttempts (run es s) = r + retries_run es s + n_reconnect (run es s)"
  using assms
proof (induction es arbitrary: s r)
  case Nil
  then show ?case by simp
next
  case (Cons e es)
  then have "\<not> opens e s" by (auto simp: opens_def)
  from step_balance [OF this, THEN conjunct1] Cons.prems(2)
  have "reconnectAttempts (step e s) =
      (r + (if fires_reconnect e s then 1 else 0)) + n_reconnect (step e s)"
    by simp
  moreover have "WsOpen \<notin> set es" using Cons.prems(1) by simp
  ultimately have "reconnectAttempts (run es (step e s)) =
      (r + (if fires_reconnect e s then 1 else 0)) + retries_run es (step e s)
        + n_reconnect (run es (step e s))"
    by (rule Cons.IH [rotated])
  then show ?case by simp
qed

lemma step_max: "maxReconnectAttempts (step e s) = maxReconnectAttempts s"
proof (cases e)
  case (WsMessage frame)
  have "same_core s (uncaught (onmessage frame s))"
    using onmessage_msg_step [where s = s and frame = frame] by (simp add: msg_step_def same_core_def)
  then show ?thesis using WsMessage by (simp add: step_def same_core_def)
next
  case (Fire k throws)
  have "maxReconnectAttempts (run_callback cb throws s') = maxReconnectAttempts s'" for cb s'
    by (cases cb) (simp_all add: connectWebSocket_balance removeAlert_def)
  then show ?thesis using Fire by (simp add: step_def)
qed (simp_all add: step_def onopen_def onclose_def onerror_def attemptReconnect_balance
      requestStatusUpdate_def startMonitoring_def stopMonitoring_def simulateThreat_def
      sendMessage_more_fields)

lemma step_close_counts:
  assumes "e \<noteq> WsOpen" and "constructor_ok e"
  shows "reconnectAttempts (step e s) =
     (if e = WsClose \<and> alive s \<and> reconnectAttempts s < maxReconnectAttempts s
      then Suc (reconnectAttempts s) else reconnectAttempts s)"
proof (cases e)
  case WsOpen
  then show ?thesis using assms by simp
next
  case (WsMessage frame)
  have "same_core s (uncaught (onmessage frame s))"
    using onmessage_msg_step [where s = s and frame = frame] by (simp add: msg_step_def same_core_def)
  then show ?thesis using WsMessage by (simp add: step_def same_core_def)
next
  case WsClose
  then show ?thesis
    by (auto simp: step_def onclose_def attemptReconnect_def alive_def)
next
  case (Fire k throws)
  then have "\<not> throws" using assms(2) by (simp add: constructor_ok_def)
  then have "reconnectAttempts (run_callback cb throws s') = reconnectAttempts s'" for cb s'
    by (cases cb) (simp_all add: connectWebSocket_def removeAlert_def)
  then show ?thesis using Fire by (simp add: step_def)
qed (simp_all add: step_def onerror_def requestStatusUpdate_def startMonitoring_def
      stopMonitoring_def simulateThreat_def sendMessage_conn_fields)

lemma run_close_counts:
  assumes "WsOpen \<notin> set es" and "\<forall>e\<in>set es. constructor_ok e"
    and "maxReconnectAttempts s = 5" and "reconnectAttempts s = min 5 c"
  shows "reconnectAttempts (run es s) = min 5 (c + disconnections es s)"
  using assms
proof (induction es arbitrary: s c)
  case Nil
  then show ?case by simp
next
  case (Cons e es)
  let ?d = "if e = WsClose \<and> alive s then 1 else (0::nat)"
  have e: "e \<noteq> WsOpen" "constructor_ok e" using Cons.prems(1,2) by auto
  have "reconnectAttempts (step e s) = min 5 (c + ?d)"
    using step_close_counts [OF e, of s] Cons.prems(3,4) by auto
  moreover have "maxReconnectAttempts (step e s) = 5"
    using Cons.prems(3) by (simp add: step_max)
  moreover have "WsOpen \<notin> set es" "\<forall>e\<in>set es. constructor_ok e"
    using Cons.prems(1,2) by auto
  ultimately have "reconnectAttempts (run es (step e s)) =
      min 5 ((c + ?d) + disconnections es (step e s))"
    by (intro Cons.IH)
  then show ?case by (simp add: add.assoc)
qed

lemma AgentDashboard_start:
  assumes "timers page = []"
  shows "reconnectAttempts (AgentDashboard throws page) = n_reconnect (AgentDashboard throws page)"
    and "maxReconnectAttempts (AgentDashboard throws page) = 5"
    and "\<not> throws \<Longrightarrow> reconnectAttempts (AgentDashboard throws page) = 0"
  using assms
  by (simp_all add: AgentDashboard_def connectWebSocket_def attemptReconnect_def n_reconnect_def)

text \<open>
  C2: after any sequence of events on a dashboard constructed on a page without timers
  and console lines, \<^verbatim>\<open>reconnectAttempts\<close> is the number of reconnect timeouts
  scheduled since the socket last opened. When no socket has opened in the sequence it is
  the number of retries made plus the number of retries pending, and, when moreover no
  \<^verbatim>\<open>new WebSocket\<close> threw, the number of closes of a live socket, capped at 5. It is
  also the number of attempts the console lists since the socket last opened, and is at
  most 5, the value of \<^verbatim>\<open>maxReconnectAttempts\<close>. In every state, the handler of a
  successful connection sets it to 0, and a step that opens no socket adds to it exactly
  the number of reconnect timeouts that step schedules.
\<close>

theorem reconnectAttempts_counts:
  assumes "timers page = []" and "console page = []"
  shows "reconnectAttempts (run es (AgentDashboard throws page)) =
           attempts_since_open (n_reconnect (AgentDashboard throws page)) es
             (AgentDashboard throws page)
       \<and> (if WsOpen \<in> set es then True
          else reconnectAttempts (run es (AgentDashboard throws page)) =
                 retries_run es (AgentDashboard throws page)
                 + n_reconnect (run es (AgentDashboard throws page)))
       \<and> (if WsOpen \<in> set es \<or> throws \<or> \<not> list_all constructor_ok es then True
          else reconnectAttempts (run es (AgentDashboard throws page)) =
                 min 5 (disconnections es (AgentDashboard throws page)))
       \<and> reconnectAttempts (run es (AgentDashboard throws page)) =
           attempts_made (console (run es (AgentDashboard throws page)))
       \<and> reconnectAttempts (run es (AgentDashboard throws page)) \<le> 5
       \<and> maxReconnectAttempts (run es (AgentDashboard throws page)) = 5
       \<and> (if WsOpen \<in> set es then True
          else reconnectAttempts (run es (AgentDashboard throws page)) =
                 length (filter counts_attempt (console (run es (AgentDashboard throws page)))))
       \<and> reconnectAttempts (uncaught (onopen s)) = 0
       \<and> (if opens e s then reconnectAttempts (step e s) = 0
          else reconnectAttempts (step e s) = reconnectAttempts s + schedules_reconnect e s)"
proof -
  let ?init = "AgentDashboard throws page"
  let ?s = "run es ?init"
  note start = AgentDashboard_start [OF assms(1), of throws]
  have c1: "reconnectAttempts ?s = attempts_since_open (n_reconnect ?init) es ?init"
    using run_attempts_since_open [of es ?init] start(1) by simp
  have c2: "if WsOpen \<in> set es then True
          else reconnectAttempts ?s = retries_run es ?init + n_reconnect ?s"
    using run_retries [of es ?init 0] start(1) by simp
  have c3: "if WsOpen \<in> set es \<or> throws \<or> \<not> list_all constructor_ok es then True
          else reconnectAttempts ?s = min 5 (disconnections es ?init)"
  proof (cases "WsOpen \<in> set es \<or> throws \<or> \<not> list_all constructor_ok es")
    case True
    then show ?thesis by simp
  next
    case False
    then have "WsOpen \<notin> set es" "\<forall>e\<in>set es. constructor_ok e" "\<not> throws"
      by (simp_all add: list_all_iff)
    then have "reconnectAttempts ?s = min 5 (0 + disconnections es ?init)"
      using start(2,3) by (intro run_close_counts) simp_all
    then show ?thesis using False by simp
  qed
  have inv: "attempts_inv ?s"
    using assms(2) by (intro run_attempts_inv AgentDashboard_attempts_inv)
  then have c4: "reconnectAttempts ?s = attempts_made (console ?s)"
    and c5: "reconnectAttempts ?s \<le> 5" and c6: "maxReconnectAttempts ?s = 5"
    by (simp_all add: attempts_inv_def)
  have "WsOpen \<notin> set es \<Longrightarrow> never_connected (console ?s)"
    using assms(2) by (intro run_never_connected AgentDashboard_never_connected)
  then have c7: "if WsOpen \<in> set es then True
          else reconnectAttempts ?s = length (filter counts_attempt (console ?s))"
    using attempts_made_never_connected [of "console ?s"] c4 by simp
  have c8: "reconnectAttempts (uncaught (onopen s)) = 0"
    by (rule onopen_resets)
  have c9: "if opens e s then reconnectAttempts (step e s) = 0
          else reconnectAttempts (step e s) = reconnectAttempts s + schedules_reconnect e s"
    by (simp add: step_attempts)
  show ?thesis
    by (intro conjI c1 c2 c3 c4 c5 c6 c7 c8 c9)
qed

theorem reconnectAttempts_counts_witness:
  "timers page0 = [] \<and> console page0 = [] \<and> WsOpen \<notin> set five_failures
   \<and> list_all constructor_ok five_failures
   \<and> reconnectAttempts (run five_failures (AgentDashboard False page0)) = 5
   \<and> n_reconnect (run five_failures (AgentDashboard False page0)) = 1
   \<and> retries_run five_failures (AgentDashboard False page0) = 4
   \<and> min 5 (disconnections five_failures (AgentDashboard False page0)) = 5
   \<and> attempts_made (console (run five_failures (AgentDashboard False page0))) = 5
   \<and> opens WsOpen fresh_dashboard \<and> reconnectAttempts (step WsOpen fresh_dashboard) = 0
   \<and> \<not> opens WsClose fresh_dashboard
   \<and> reconnectAttempts (step WsClose fresh_dashboard) =
       reconnectAttempts fresh_dashboard + schedules_reconnect WsClose fresh_dashboard"
proof -
  let ?s = "run five_failures (AgentDashboard False page0)"
  have h1: "timers page0 = []" and h2: "console page0 = []"
    by (simp_all add: page0_def)
  have n: "WsOpen \<notin> set five_failures" and k: "list_all constructor_ok five_failures"
    by (simp_all add: five_failures_def retry_def constructor_ok_def)
  have v: "reconnectAttempts ?s = 5" "n_reconnect ?s = 1"
    using five_failures_state by (simp_all add: fresh_dashboard_def n_reconnect_def)
  have o: "opens WsOpen fresh_dashboard" "\<not> opens WsClose fresh_dashboard"
    by (simp_all add: opens_def fresh_dashboard_eq)
  note w = reconnectAttempts_counts [OF h1 h2, of five_failures False]
  from w [where e = WsOpen and s = fresh_dashboard] n have r: "retries_run five_failures (AgentDashboard False page0) = 4"
    using v by simp
  from w [where e = WsOpen and s = fresh_dashboard] n k
  have d: "min 5 (disconnections five_failures (AgentDashboard False page0)) = 5"
    using v by simp
  from w [where e = WsOpen and s = fresh_dashboard] have a: "attempts_made (console ?s) = 5"
    using v by simp
  from w [where e = WsOpen and s = fresh_dashboard] o(1)
  have z: "reconnectAttempts (step WsOpen fresh_dashboard) = 0"
    by simp
  from w [where e = WsClose and s = fresh_dashboard] o(2)
  have c: "reconnectAttempts (step WsClose fresh_dashboard) =
       reconnectAttempts fresh_dashboard + schedules_reconnect WsClose fresh_dashboard"
    by simp
  show ?thesis
    by (intro conjI h1 h2 n k v r d a o z c)
qed

subsection \<open>Commands\<close>

lemma sendMessage_returns_reachable:
  assumes "conn_inv s"
  shows "sendMessage_returns message s = Inr JUndefined"
proof (cases "ws s \<noteq> None \<and> isConnected s")
  case True
  then have "ws s = Some OPEN" using assms by (simp add: conn_inv_def)
  then show ?thesis
    using True by (simp add: sendMessage_returns_def sendMessage_def ws_send_def)
next
  case False
  then show ?thesis by (auto simp: sendMessage_returns_def sendMessage_def)
qed

text \<open>
  C5, as the claim states it, fails. On a dashboard that is not connected the command
  \<^verbatim>\<open>START_MONITORING\<close> is dropped, and on a connected one it is transmitted, yet
  \<^verbatim>\<open>sendMessage\<close> gives its caller the same in both cases: no exception and the
  value \<^verbatim>\<open>undefined\<close>. The condition is not reported to the caller.
\<close>

theorem sendMessage_report_counterexample:
  "\<not> (ws fresh_dashboard \<noteq> None \<and> isConnected fresh_dashboard)
   \<and> sent (snd (sendMessage start_command fresh_dashboard)) = sent fresh_dashboard
   \<and> sendMessage_returns start_command fresh_dashboard = Inr JUndefined
   \<and> ws connected_dashboard = Some OPEN \<and> isConnected connected_dashboard
   \<and> sent (snd (sendMessage start_command connected_dashboard)) =
       sent connected_dashboard @ [start_command]
   \<and> sendMessage_returns start_command connected_dashboard = Inr JUndefined
   \<and> startMonitoring fresh_dashboard = sendMessage start_command fresh_dashboard
   \<and> fst (startMonitoring fresh_dashboard) = None"
  by (simp add: sendMessage_returns_def sendMessage_def ws_send_def startMonitoring_def
      start_command_def fresh_dashboard_eq connected_dashboard_eq page0_def)

text \<open>
  C5, amended: unless \<^verbatim>\<open>this.ws\<close> is set and \<^verbatim>\<open>isConnected\<close> holds,
  \<^verbatim>\<open>sendMessage\<close> sends nothing, throws nothing and reports
  \<^verbatim>\<open>WebSocket not connected\<close> on the console only, with \<^verbatim>\<open>console.error\<close>: its
  caller gets \<^verbatim>\<open>undefined\<close>, as after a transmitted command. On an open socket with
  \<^verbatim>\<open>isConnected\<close> it transmits the message, and whenever it transmitted, the socket
  was open and \<^verbatim>\<open>isConnected\<close> held. In every state a dashboard reaches from its
  construction on a page without timers, \<^verbatim>\<open>isConnected\<close> holds only with an open
  socket, and \<^verbatim>\<open>sendMessage\<close> returns \<^verbatim>\<open>undefined\<close> without throwing.
\<close>

theorem sendMessage_gate:
  "(\<not> (ws s \<noteq> None \<and> isConnected s) \<longrightarrow>
      sendMessage message s =
        (None, s\<lparr>console := console s @ [Error ''WebSocket not connected'' []]\<rparr>)
      \<and> sent (snd (sendMessage message s)) = sent s
      \<and> sendMessage_returns message s = Inr JUndefined)
   \<and> (ws s = Some OPEN \<and> isConnected s \<longrightarrow>
      sendMessage message s = (None, s\<lparr>sent := sent s @ [message]\<rparr>)
      \<and> sendMessage_returns message s = Inr JUndefined)
   \<and> (sent (snd (sendMessage message s)) \<noteq> sent s \<longrightarrow> ws s = Some OPEN \<and> isConnected s)
   \<and> (timers page = [] \<and> isConnected (run es (AgentDashboard throws page)) \<longrightarrow>
        ws (run es (AgentDashboard throws page)) = Some OPEN)
   \<and> (timers page = [] \<longrightarrow>
        sendMessage_returns message (run es (AgentDashboard throws page)) = Inr JUndefined)"
proof -
  have g1: "\<not> (ws s \<noteq> None \<and> isConnected s) \<longrightarrow>
      sendMessage message s =
        (None, s\<lparr>console := console s @ [Error ''WebSocket not connected'' []]\<rparr>)
      \<and> sent (snd (sendMessage message s)) = sent s
      \<and> sendMessage_returns message s = Inr JUndefined"
    by (auto simp: sendMessage_returns_def sendMessage_def)
  have g2: "ws s = Some OPEN \<and> isConnected s \<longrightarrow>
      sendMessage message s = (None, s\<lparr>sent := sent s @ [message]\<rparr>)
      \<and> sendMessage_returns message s = Inr JUndefined"
    by (simp add: sendMessage_returns_def sendMessage_def ws_send_def)
  have g3: "sent (snd (sendMessage message s)) \<noteq> sent s \<longrightarrow> ws s = Some OPEN \<and> isConnected s"
    by (auto simp: sendMessage_def ws_send_def split: option.splits readyState.splits)
  have inv: "conn_inv (run es (AgentDashboard throws page))" if "timers page = []"
    using that by (intro run_conn_inv AgentDashboard_conn_inv)
  then have g4: "timers page = [] \<and> isConnected (run es (AgentDashboard throws page)) \<longrightarrow>
        ws (run es (AgentDashboard throws page)) = Some OPEN"
    by (simp add: conn_inv_def)
  have g5: "timers page = [] \<longrightarrow>
        sendMessage_returns message (run es (AgentDashboard throws page)) = Inr JUndefined"
    using inv by (simp add: sendMessage_returns_reachable)
  show ?thesis
    by (intro conjI g1 g2 g3 g4 g5)
qed

theorem sendMessage_gate_witness:
  "\<not> (ws fresh_dashboard \<noteq> None \<and> isConnected fresh_dashboard)
   \<and> fst (sendMessage start_command fresh_dashboard) = None
   \<and> sent (snd (sendMessage start_command fresh_dashboard)) = sent fresh_dashboard
   \<and> console (snd (sendMessage start_command fresh_dashboard)) =
       [Error ''WebSocket not connected'' []]
   \<and> sendMessage_returns start_command fresh_dashboard = Inr JUndefined
   \<and> ws connected_dashboard = Some OPEN \<and> isConnected connected_dashboard
   \<and> sent (snd (sendMessage start_command connected_dashboard)) =
       [JObj [(''type'', JStr ''GET_STATUS'')], start_command]
   \<and> sent (snd (sendMessage start_command connected_dashboard)) \<noteq> sent connected_dashboard
   \<and> timers page0 = [] \<and> isConnected (run [WsOpen] (AgentDashboard False page0))
   \<and> ws (run [WsOpen] (AgentDashboard False page0)) = Some OPEN
   \<and> sendMessage_returns start_command (run [WsOpen] (AgentDashboard False page0)) = Inr JUndefined"
proof -
  have r: "run [WsOpen] (AgentDashboard False page0) = connected_dashboard"
    by (simp add: connected_dashboard_def fresh_dashboard_def)
  show ?thesis
    using sendMessage_gate [of fresh_dashboard start_command page0 "[WsOpen]" False]
      sendMessage_gate [of connected_dashboard start_command page0 "[WsOpen]" False]
    unfolding r
    by (simp add: fresh_dashboard_eq connected_dashboard_eq page0_def)
qed

subsection \<open>Teardown\<close>


end
